theory Spec2Isabelle
  imports Main "HOL-Library.Word" "HOL-Library.AList"
begin

section \<open>Library functions the scraper calls\<close>

text \<open>
  Go strings are modelled as byte strings (\<open>string\<close>). The functions of the packages
  \<open>strings\<close>, \<open>strconv\<close> and \<open>fmt\<close> that the scraper calls are written out on ASCII text,
  which is what the feed's identifiers, age labels and counters consist of. The machine
  type \<open>int\<close> is 64 bits wide, \<open>time.Duration\<close> is an \<open>int64\<close> count of nanoseconds.
\<close>

subsection \<open>Package strings\<close>

definition HasPrefix :: "string \<Rightarrow> string \<Rightarrow> bool" where
  "HasPrefix s p = (take (length p) s = p)"

definition HasSuffix :: "string \<Rightarrow> string \<Rightarrow> bool" where
  "HasSuffix s p = (length p \<le> length s \<and> drop (length s - length p) s = p)"

definition TrimSuffix :: "string \<Rightarrow> string \<Rightarrow> string" where
  "TrimSuffix s p = (if HasSuffix s p then take (length s - length p) s else s)"

fun Contains :: "string \<Rightarrow> string \<Rightarrow> bool" where
  "Contains [] sub = (sub = [])"
| "Contains (c # cs) sub = (HasPrefix (c # cs) sub \<or> Contains cs sub)"

definition isSpace :: "char \<Rightarrow> bool" where
  "isSpace c = (c \<in> set [CHR '' '', CHR 0x09, CHR 0x0A, CHR 0x0B, CHR 0x0C, CHR 0x0D])"

definition TrimSpace :: "string \<Rightarrow> string" where
  "TrimSpace s = rev (dropWhile isSpace (rev (dropWhile isSpace s)))"

definition lowerChar :: "char \<Rightarrow> char" where
  "lowerChar c =
     (case map_of (zip ''ABCDEFGHIJKLMNOPQRSTUVWXYZ'' ''abcdefghijklmnopqrstuvwxyz'') c of
        Some l \<Rightarrow> l
      | None \<Rightarrow> c)"

definition ToLower :: "string \<Rightarrow> string" where
  "ToLower s = map lowerChar s"

text \<open>
  \<open>strings.Fields\<close>: the maximal runs of non-space characters, in order. The first
  argument is the field being read, reversed.
\<close>

fun fieldsFrom :: "string \<Rightarrow> string \<Rightarrow> string list" where
  "fieldsFrom w [] = (if w = [] then [] else [rev w])"
| "fieldsFrom w (c # cs) =
     (if isSpace c then (if w = [] then fieldsFrom [] cs else rev w # fieldsFrom [] cs)
      else fieldsFrom (c # w) cs)"

definition Fields :: "string \<Rightarrow> string list" where
  "Fields s = fieldsFrom [] s"

text \<open>
  \<open>strings.ReplaceAll\<close> for a non-empty pattern: the first argument counts the
  characters of a match that are still to be skipped.
\<close>

fun replaceFrom :: "nat \<Rightarrow> string \<Rightarrow> string \<Rightarrow> string \<Rightarrow> string" where
  "replaceFrom k [] old new = []"
| "replaceFrom (Suc k) (c # cs) old new = replaceFrom k cs old new"
| "replaceFrom 0 (c # cs) old new =
     (if old \<noteq> [] \<and> HasPrefix (c # cs) old
      then new @ replaceFrom (length old - 1) cs old new
      else c # replaceFrom 0 cs old new)"

definition ReplaceAll :: "string \<Rightarrow> string \<Rightarrow> string \<Rightarrow> string" where
  "ReplaceAll s old new = replaceFrom 0 s old new"

subsection \<open>Package strconv and the verb %d of package fmt\<close>

definition isDigit :: "char \<Rightarrow> bool" where
  "isDigit c = (c \<in> set ''0123456789'')"

definition digitVal :: "char \<Rightarrow> int" where
  "digitVal c =
     (case map_of (zip ''0123456789'' [0, 1, 2, 3, 4, 5, 6, 7, 8, 9]) c of
        Some d \<Rightarrow> d
      | None \<Rightarrow> 0)"

definition decimalVal :: "string \<Rightarrow> int" where
  "decimalVal ds = foldl (\<lambda>a c. 10 * a + digitVal c) 0 ds"

definition minInt64 :: int where
  "minInt64 = - (2 ^ 63)"

definition maxInt64 :: int where
  "maxInt64 = 2 ^ 63 - 1"

text \<open>
  \<open>strconv.Atoi\<close>: an optional sign and at least one decimal digit, nothing else; a
  value outside the range of \<open>int\<close> is an error (\<open>None\<close>).
\<close>

definition signedDecimal :: "string \<Rightarrow> int option" where
  "signedDecimal s =
     (let neg = (s \<noteq> [] \<and> hd s = CHR ''-'');
          ds = (if s \<noteq> [] \<and> (hd s = CHR ''-'' \<or> hd s = CHR ''+'') then tl s else s)
      in if ds = [] \<or> \<not> list_all isDigit ds then None
         else Some (if neg then - decimalVal ds else decimalVal ds))"

definition Atoi :: "string \<Rightarrow> int option" where
  "Atoi s =
     (case signedDecimal s of
        None \<Rightarrow> None
      | Some v \<Rightarrow> if minInt64 \<le> v \<and> v \<le> maxInt64 then Some v else None)"

text \<open>The decimal rendering of the verb \<open>%d\<close> in \<open>fmt.Sprintf\<close>.\<close>

fun digits :: "nat \<Rightarrow> string" where
  "digits n =
     (if n < 10 then [''0123456789'' ! n]
      else digits (n div 10) @ [''0123456789'' ! (n mod 10)])"

declare digits.simps [simp del]

definition itoa :: "int \<Rightarrow> string" where
  "itoa i = (if i < 0 then CHR ''-'' # digits (nat (- i)) else digits (nat i))"

text \<open>
  \<open>fmt.Sscanf\<close> with a format that starts with \<open>%d\<close>: leading blanks are skipped, then
  an optional sign and the longest run of decimal digits is read and converted. The
  result is the number and the unread rest of the input; \<open>None\<close> when no number could
  be read, in which case the argument of \<open>Sscanf\<close> keeps its old value.
\<close>

definition scanInt :: "string \<Rightarrow> (int \<times> string) option" where
  "scanInt s =
     (let s1 = dropWhile (\<lambda>c. c = CHR '' '' \<or> c = CHR 0x09 \<or> c = CHR 0x0D) s;
          sgn = (if s1 \<noteq> [] \<and> (hd s1 = CHR ''-'' \<or> hd s1 = CHR ''+'') then [hd s1] else []);
          s2 = drop (length sgn) s1;
          ds = takeWhile isDigit s2
      in case Atoi (sgn @ ds) of
           None \<Rightarrow> None
         | Some v \<Rightarrow> Some (v, dropWhile isDigit s2))"

text \<open>
  The rest of such a format, a blank and a word (\<open>" comment"\<close>): any number of blanks
  in the input, then the word.
\<close>

definition scanIntWord :: "string \<Rightarrow> string \<Rightarrow> int option" where
  "scanIntWord s word =
     (case scanInt s of
        None \<Rightarrow> None
      | Some (v, rest) \<Rightarrow>
          if HasPrefix (dropWhile (\<lambda>c. c = CHR '' '' \<or> c = CHR 0x09 \<or> c = CHR 0x0D) rest) word
          then Some v else None)"

section \<open>Package time, as far as the scraper uses it\<close>

text \<open>
  The standard library's clock and calendar are outside the repository. The scraper
  reaches them through the operations below, which the model takes as a parameter: one
  reading of \<open>time.Now()\<close> for the run, the zero \<open>time.Time\<close>, \<open>Time.Add\<close>, \<open>Time.AddDate\<close>,
  \<open>Time.IsZero\<close>, \<open>Time.Year\<close> and \<open>time.Parse\<close> with the one layout the parser passes
  (\<open>2006-01-02T15:04:05\<close>). Durations and the arguments of \<open>AddDate\<close> are 64-bit machine
  integers, so the arithmetic on them wraps around.
\<close>

record 't Clock =
  time_Now :: "'t"
  time_Zero :: "'t"
  time_Add :: "'t \<Rightarrow> 64 word \<Rightarrow> 't"
  time_AddDate :: "'t \<Rightarrow> 64 word \<Rightarrow> 64 word \<Rightarrow> 64 word \<Rightarrow> 't"
  time_IsZero :: "'t \<Rightarrow> bool"
  time_Year :: "'t \<Rightarrow> int"
  time_Parse :: "string \<Rightarrow> 't option"

definition Nanosecond :: "64 word" where
  "Nanosecond = 1"

definition Second :: "64 word" where
  "Second = 1000000000"

definition Minute :: "64 word" where
  "Minute = 60 * Second"

definition Hour :: "64 word" where
  "Hour = 60 * Minute"

section \<open>The record extractor (internal/scraper/parser.go)\<close>

record 't Post =
  ID :: int
  HnID :: int
  Title :: string
  URL :: string
  Author :: string
  Points :: int
  CommentsCount :: int
  PostTime :: "'t"
  ScrapedAt :: "'t"

text \<open>
  A document is modelled by what the parser's queries return on it: the rows selected
  by \<open>tr.athing\<close> in document order, and for each row its \<open>id\<close> attribute, the text and the
  \<open>href\<close> of the first anchor of \<open>.titleline\<close>, and the next sibling row (absent when
  \<open>Next()\<close> is empty) with the text of \<open>.score\<close> and \<open>.hnuser\<close>, the \<open>.age\<close> element (absent
  when the selection is empty) and the texts of the anchors of \<open>.subtext\<close>.
\<close>

record AgeElement =
  age_title :: "string option"
  age_text :: string

record MetaRow =
  score_text :: string
  hnuser_text :: string
  age_elem :: "AgeElement option"
  link_texts :: "string list"

record AThing =
  id_attr :: "string option"
  title_text :: string
  title_href :: "string option"
  meta_row :: "MetaRow option"

type_synonym Document = "AThing list"

text \<open>
  \<open>parseRelativeTime\<close>, lines 119-165. \<open>relativeValueUnit\<close> is the block that reads
  \<open>value\<close> and \<open>unit\<close> from the fields (both keep their zero values when it reads
  nothing), \<open>relativeSwitch\<close> is the final \<open>switch\<close>.
\<close>

definition relativeValueUnit :: "string list \<Rightarrow> 64 word \<times> string" where
  "relativeValueUnit parts =
     (if length parts \<ge> 2 then
        (case Atoi (parts ! 0) of
           Some n \<Rightarrow> (word_of_int n, parts ! 1)
         | None \<Rightarrow>
             if parts ! 0 = ''a'' \<or> parts ! 0 = ''an'' then (1, parts ! 1) else (0, []))
      else (0, []))"

definition relativeSwitch :: "'t Clock \<Rightarrow> 't \<Rightarrow> 64 word \<Rightarrow> string \<Rightarrow> 't" where
  "relativeSwitch clk now val unit =
     (if Contains unit ''second'' then time_Add clk now (- val * Second)
      else if Contains unit ''minute'' then time_Add clk now (- val * Minute)
      else if Contains unit ''hour'' then time_Add clk now (- val * Hour)
      else if Contains unit ''day'' then time_AddDate clk now 0 0 (- val)
      else if Contains unit ''week'' then time_AddDate clk now 0 0 (- val * 7)
      else if Contains unit ''month'' then time_AddDate clk now 0 (- val) 0
      else if Contains unit ''year'' then time_AddDate clk now (- val) 0 0
      else now)"

definition parseRelativeTime :: "'t Clock \<Rightarrow> string \<Rightarrow> 't" where
  "parseRelativeTime clk ageText0 =
     (let now = time_Now clk;
          ageText = TrimSuffix (TrimSpace (ToLower ageText0)) '' ago''
      in if ageText = ''just now'' then now
         else if ageText = ''yesterday'' then time_AddDate clk now 0 0 (- 1)
         else case relativeValueUnit (Fields ageText) of
                (val, unit) \<Rightarrow> relativeSwitch clk now val unit)"

text \<open>
  \<open>parseComments\<close>, lines 167-191: the loop over the anchors of \<open>.subtext\<close>; the
  non-breaking space is the two bytes of its UTF-8 encoding.
\<close>

definition commentsStep :: "int \<Rightarrow> string \<Rightarrow> int" where
  "commentsStep comments link =
     (let text = TrimSpace link
      in if text = ''discuss'' then comments
         else if Contains text ''comment'' then
           (let text1 = ReplaceAll text [CHR 0xC2, CHR 0xA0] '' '';
                text2 = ReplaceAll text1 ''&nbsp;'' '' ''
            in case scanIntWord text2 ''comment'' of
                 Some n \<Rightarrow> n
               | None \<Rightarrow>
                   (case scanIntWord text2 ''comments'' of
                      Some n \<Rightarrow> n
                    | None \<Rightarrow> comments))
         else comments)"

definition parseComments :: "string list \<Rightarrow> int" where
  "parseComments links = foldl commentsStep 0 links"

text \<open>
  \<open>parsePost\<close>, lines 36-117. An error is \<open>Inl\<close> of its message; the half-filled post
  that the Go function returns beside an error is never read by the caller.
\<close>

definition agePostTime :: "'t Clock \<Rightarrow> AgeElement option \<Rightarrow> 't" where
  "agePostTime clk age =
     (case age of
        None \<Rightarrow> time_Zero clk
      | Some a \<Rightarrow>
          (case age_title a of
             None \<Rightarrow> parseRelativeTime clk (TrimSpace (age_text a))
           | Some timeStr \<Rightarrow>
               if timeStr \<noteq> [] then
                 (case Fields timeStr of
                    [] \<Rightarrow> time_Zero clk
                  | timeToParse # _ \<Rightarrow>
                      (case time_Parse clk timeToParse of
                         Some t \<Rightarrow> t
                       | None \<Rightarrow> parseRelativeTime clk (TrimSpace (age_text a))))
               else parseRelativeTime clk (TrimSpace (age_text a))))"

definition validPostTime :: "'t Clock \<Rightarrow> 't \<Rightarrow> 't" where
  "validPostTime clk t =
     (if time_IsZero clk t \<or> time_Year clk t < 2000 then time_Now clk else t)"

definition parsePost :: "'t Clock \<Rightarrow> AThing \<Rightarrow> string + 't Post" where
  "parsePost clk s =
     (case id_attr s of
        None \<Rightarrow> Inl ''no ID found''
      | Some hnIDStr \<Rightarrow>
          (case Atoi hnIDStr of
             None \<Rightarrow> Inl (''invalid ID: '' @ hnIDStr)
           | Some hnID \<Rightarrow>
               (case meta_row s of
                  None \<Rightarrow> Inl ''no metadata row found''
                | Some metaRow \<Rightarrow>
                    (let href = (case title_href s of None \<Rightarrow> [] | Some h \<Rightarrow> h);
                         url = (if href \<noteq> [] \<and> \<not> HasPrefix href ''http''
                                then ''https://news.ycombinator.com/'' @ href else href);
                         points = (case scanInt (score_text metaRow) of
                                     Some (v, _) \<Rightarrow> v
                                   | None \<Rightarrow> 0);
                         user = TrimSpace (hnuser_text metaRow);
                         author = (if user = [] then ''unknown'' else user)
                     in Inr \<lparr>ID = 0, HnID = hnID, Title = TrimSpace (title_text s),
                             URL = url, Author = author, Points = points,
                             CommentsCount = parseComments (link_texts metaRow),
                             PostTime = validPostTime clk (agePostTime clk (age_elem metaRow)),
                             ScrapedAt = time_Now clk\<rparr>))))"

text \<open>
  \<open>ParseDocument\<close>, lines 20-34: the loop over the rows, and the pair the function
  returns (the posts, and the error, \<open>None\<close> for \<open>nil\<close>).
\<close>

fun parseRows :: "'t Clock \<Rightarrow> 't Post list \<Rightarrow> Document \<Rightarrow> 't Post list" where
  "parseRows clk posts [] = posts"
| "parseRows clk posts (s # rest) =
     parseRows clk
       (case parsePost clk s of
          Inl err \<Rightarrow> posts
        | Inr post \<Rightarrow> if HnID post > 0 then posts @ [post] else posts)
       rest"

definition ParseDocument :: "'t Clock \<Rightarrow> Document \<Rightarrow> 't Post list \<times> string option" where
  "ParseDocument clk doc = (parseRows clk [] doc, None)"

section \<open>The reconciliation store (internal/database/connection.go)\<close>

text \<open>
  One run's summary, \<open>ScrapingResult\<close> (smart scraper, lines 301-314). The wall-clock
  fields \<open>StartTime\<close>, \<open>EndTime\<close> and \<open>Duration\<close> are left out: nothing in the engine reads
  them. An entry of \<open>Errors\<close> is kept as a value that says which statement appended it;
  \<open>errorText\<close> is the string the Go code formats.
\<close>

datatype ScrapingMode =
  ModeLatestOnly | ModeUntilExisting | ModeFullArchive | ModeSinceLast | ModeOther string

datatype ScrapeError =
  FetchFailed string
| DocumentFailed string
| PostsFailed string

fun scrapeErrorText :: "ScrapeError \<Rightarrow> string" where
  "scrapeErrorText (FetchFailed e) = ''failed to fetch page: '' @ e"
| "scrapeErrorText (DocumentFailed e) = ''failed to parse page: '' @ e"
| "scrapeErrorText (PostsFailed e) = ''failed to parse page: '' @ e"

datatype PageError =
  PageScrape int ScrapeError
| PageFetch int string
| PageParse int string
| PagePosts int string

fun errorText :: "PageError \<Rightarrow> string" where
  "errorText (PageScrape page e) = ''Page '' @ itoa page @ '': '' @ scrapeErrorText e"
| "errorText (PageFetch page e) = ''Page '' @ itoa page @ '': '' @ e"
| "errorText (PageParse page e) = ''Page '' @ itoa page @ '' parse: '' @ e"
| "errorText (PagePosts page e) = ''Page '' @ itoa page @ '' posts: '' @ e"

record ScrapingResult =
  Mode :: ScrapingMode
  PagesScraped :: int
  PostsScraped :: int
  NewPosts :: int
  UpdatedPosts :: int
  DeletedPosts :: int
  LastKnownID :: int
  HighestIDSeen :: int
  Errors :: "PageError list"

text \<open>
  The database, as far as the scraper reads and writes it: the table \<open>posts\<close> keyed by
  the unique column \<open>hn_id\<close>, the table \<open>post_history\<close> in insertion order, the sequence
  behind \<open>posts.id\<close>, and the rows that \<open>CreateDetailedScrapingJob\<close> writes. The timestamp
  columns that the database fills in itself are not modelled.

  Every SQL statement can fail (connection loss, a constraint, a column the schema
  lacks). \<open>faults\<close> lists, for the statements still to come, whether each one fails; once
  the list is used up every statement succeeds. A failed statement changes nothing.
\<close>

record 't PostRow =
  row_id :: int
  row_title :: string
  row_url :: string
  row_author :: string
  row_points :: int
  row_comments_count :: int
  row_post_time :: "'t"

record HistoryRow =
  history_post_id :: int
  history_points :: int
  history_comments_count :: int

record 't Database =
  posts :: "(int \<times> 't PostRow) list"
  post_history :: "HistoryRow list"
  posts_id_seq :: int
  job_details :: "ScrapingResult list"
  faults :: "bool list"

definition dbError :: string where
  "dbError = ''pq: statement failed''"

definition nextFault :: "'t Database \<Rightarrow> bool \<times> 't Database" where
  "nextFault db =
     (case faults db of
        [] \<Rightarrow> (False, db)
      | f # fs \<Rightarrow> (f, db\<lparr>faults := fs\<rparr>))"

text \<open>
  \<open>InsertPost\<close>, lines 85-101: an upsert. A new \<open>hn_id\<close> gets a row with the next value of
  the sequence; on a conflict only \<open>points\<close> and \<open>comments_count\<close> of the existing row
  change. Either way the statement returns the row's \<open>id\<close> (\<open>Inr\<close>), which the Go code
  scans into \<open>post.ID\<close>. The sequence advances on every executed statement.
\<close>

definition InsertPost :: "'t Database \<Rightarrow> 't Post \<Rightarrow> (string + int) \<times> 't Database" where
  "InsertPost db post =
     (case nextFault db of
        (True, db1) \<Rightarrow> (Inl dbError, db1)
      | (False, db1) \<Rightarrow>
          (case map_of (posts db1) (HnID post) of
             Some row \<Rightarrow>
               (Inr (row_id row),
                db1\<lparr>posts := AList.update (HnID post)
                                (row\<lparr>row_points := Points post,
                                     row_comments_count := CommentsCount post\<rparr>)
                                (posts db1),
                     posts_id_seq := posts_id_seq db1 + 1\<rparr>)
           | None \<Rightarrow>
               (Inr (posts_id_seq db1),
                db1\<lparr>posts := AList.update (HnID post)
                                \<lparr>row_id = posts_id_seq db1, row_title = Title post,
                                 row_url = URL post, row_author = Author post,
                                 row_points = Points post,
                                 row_comments_count = CommentsCount post,
                                 row_post_time = PostTime post\<rparr>
                                (posts db1),
                     posts_id_seq := posts_id_seq db1 + 1\<rparr>)))"

text \<open>\<open>InsertPostHistory\<close>, lines 138-145.\<close>

definition InsertPostHistory ::
  "'t Database \<Rightarrow> int \<Rightarrow> int \<Rightarrow> int \<Rightarrow> string option \<times> 't Database" where
  "InsertPostHistory db postID points comments =
     (case nextFault db of
        (True, db1) \<Rightarrow> (Some dbError, db1)
      | (False, db1) \<Rightarrow>
          (None,
           db1\<lparr>post_history := post_history db1 @
                  [\<lparr>history_post_id = postID, history_points = points,
                    history_comments_count = comments\<rparr>]\<rparr>))"

text \<open>\<open>GetLatestHNPostID\<close>, lines 280-287: \<open>COALESCE(MAX(hn_id), 0)\<close>.\<close>

definition maxHnID :: "(int \<times> 't PostRow) list \<Rightarrow> int" where
  "maxHnID rows = (case map fst rows of [] \<Rightarrow> 0 | k # ks \<Rightarrow> foldl max k ks)"

definition GetLatestHNPostID :: "'t Database \<Rightarrow> (int \<times> string option) \<times> 't Database" where
  "GetLatestHNPostID db =
     (case nextFault db of
        (True, db1) \<Rightarrow> ((0, Some dbError), db1)
      | (False, db1) \<Rightarrow> ((maxHnID (posts db1), None), db1))"

text \<open>\<open>PostExists\<close>, lines 289-295.\<close>

definition PostExists :: "'t Database \<Rightarrow> int \<Rightarrow> (bool \<times> string option) \<times> 't Database" where
  "PostExists db hnID =
     (case nextFault db of
        (True, db1) \<Rightarrow> ((False, Some dbError), db1)
      | (False, db1) \<Rightarrow> ((map_of (posts db1) hnID \<noteq> None, None), db1))"

text \<open>
  \<open>recordPostHistory\<close>, lines 371-384: the \<open>id\<close> of the row is looked up (an error when
  there is no such row), then the snapshot is inserted.
\<close>

definition recordPostHistory ::
  "'t Database \<Rightarrow> int \<Rightarrow> int \<Rightarrow> int \<Rightarrow> string option \<times> 't Database" where
  "recordPostHistory db hnID points comments =
     (case nextFault db of
        (True, db1) \<Rightarrow> (Some dbError, db1)
      | (False, db1) \<Rightarrow>
          (case map_of (posts db1) hnID of
             None \<Rightarrow> (Some ''sql: no rows in result set'', db1)
           | Some row \<Rightarrow>
               (case nextFault db1 of
                  (True, db2) \<Rightarrow> (Some dbError, db2)
                | (False, db2) \<Rightarrow>
                    (None,
                     db2\<lparr>post_history := post_history db2 @
                            [\<lparr>history_post_id = row_id row, history_points = points,
                              history_comments_count = comments\<rparr>]\<rparr>))))"

text \<open>
  \<open>UpdatePost\<close>, lines 297-313. The \<open>UPDATE\<close> succeeds also when no row has the
  \<open>hn_id\<close>. It writes the column \<open>last_seen\<close> too, which the schema under \<open>env/\<close> does not
  declare; on such a database the statement fails, which is the fault case here. The
  error of \<open>recordPostHistory\<close> is dropped.
\<close>

definition UpdatePost :: "'t Database \<Rightarrow> 't Post \<Rightarrow> string option \<times> 't Database" where
  "UpdatePost db post =
     (case nextFault db of
        (True, db1) \<Rightarrow> (Some dbError, db1)
      | (False, db1) \<Rightarrow>
          (let db2 =
                 (case map_of (posts db1) (HnID post) of
                    None \<Rightarrow> db1
                  | Some row \<Rightarrow>
                      db1\<lparr>posts := AList.update (HnID post)
                                      (row\<lparr>row_points := Points post,
                                           row_comments_count := CommentsCount post\<rparr>)
                                      (posts db1)\<rparr>)
           in (None, snd (recordPostHistory db2 (HnID post) (Points post) (CommentsCount post)))))"

text \<open>\<open>CreateDetailedScrapingJob\<close>, lines 386-410.\<close>

definition CreateDetailedScrapingJob ::
  "'t Database \<Rightarrow> ScrapingResult \<Rightarrow> string option \<times> 't Database" where
  "CreateDetailedScrapingJob db result =
     (case nextFault db of
        (True, db1) \<Rightarrow> (Some dbError, db1)
      | (False, db1) \<Rightarrow> (None, db1\<lparr>job_details := job_details db1 @ [result]\<rparr>))"

section \<open>The crawl strategy engine (smart scraper)\<close>

text \<open>
  \<open>config.ScraperConfig\<close> (the selectors are not read by the engine) and the
  \<open>SmartScraper\<close> itself; the repository and the parser it points to are the database and
  the functions above.
\<close>

record ScraperConfig =
  ConfigName :: string
  ConfigURL :: string
  ConfigInterval :: int
  ConfigEnabled :: bool

record SmartScraper =
  config :: ScraperConfig
  mode :: ScrapingMode
  maxPages :: int
  stopOnDuplicate :: bool

definition NewSmartScraper :: "ScraperConfig \<Rightarrow> ScrapingMode \<Rightarrow> int \<Rightarrow> SmartScraper" where
  "NewSmartScraper scraperConfig m pages =
     \<lparr>config = scraperConfig, mode = m, maxPages = pages,
      stopOnDuplicate = (m = ModeUntilExisting \<or> m = ModeSinceLast)\<rparr>"

text \<open>
  The network: what \<open>http.Get\<close> followed by \<open>goquery.NewDocumentFromReader\<close> gives for a
  URL, namely a transport error, an error while reading the body into a document, or
  the document.
\<close>

datatype Response =
  GetFailed string
| ReadFailed string
| Body Document

type_synonym Web = "string \<Rightarrow> Response"

text \<open>\<open>buildPageURL\<close>, lines 320-332.\<close>

definition buildPageURL :: "SmartScraper \<Rightarrow> int \<Rightarrow> string" where
  "buildPageURL s page =
     (if Contains (ConfigURL (config s)) ''news.ycombinator.com'' then
        (if page = 1 then ''https://news.ycombinator.com/''
         else ''https://news.ycombinator.com/?p='' @ itoa page)
      else if page = 1 then ConfigURL (config s)
      else ConfigURL (config s) @ ''?page='' @ itoa page)"

text \<open>\<open>scrapePage\<close>, lines 249-276.\<close>

definition scrapePage :: "'t Clock \<Rightarrow> Web \<Rightarrow> string \<Rightarrow> int \<Rightarrow> ScrapeError + 't Post list" where
  "scrapePage clk web url pageNum =
     (case web url of
        GetFailed err \<Rightarrow> Inl (FetchFailed err)
      | ReadFailed err \<Rightarrow> Inl (DocumentFailed err)
      | Body doc \<Rightarrow>
          (case ParseDocument clk doc of
             (ps, Some err) \<Rightarrow> Inl (PostsFailed err)
           | (ps, None) \<Rightarrow>
               Inr (map (\<lambda>post. if time_IsZero clk (PostTime post) \<or> time_Year clk (PostTime post) < 2000
                                 then post\<lparr>PostTime := time_Now clk\<rparr> else post)
                        ps)))"

text \<open>
  \<open>savePosts\<close>, lines 278-299: \<open>savePost\<close> is the body of the loop, on the running count
  \<open>saved\<close>, the result and the database.
\<close>

definition savePost ::
  "'t Post \<Rightarrow> int \<times> ScrapingResult \<times> 't Database \<Rightarrow> int \<times> ScrapingResult \<times> 't Database" where
  "savePost post st =
     (case st of (saved, result, db) \<Rightarrow>
        (case PostExists db (HnID post) of ((exists, _), db1) \<Rightarrow>
           (case (if exists then
                    (case UpdatePost db1 post of
                       (None, db2) \<Rightarrow>
                         (saved, result\<lparr>UpdatedPosts := UpdatedPosts result + 1\<rparr>, db2)
                     | (Some err, db2) \<Rightarrow> (saved, result, db2))
                  else
                    (case InsertPost db1 post of
                       (Inr _, db2) \<Rightarrow>
                         (saved + 1, result\<lparr>NewPosts := NewPosts result + 1\<rparr>, db2)
                     | (Inl err, db2) \<Rightarrow> (saved, result, db2)))
            of (saved1, result1, db2) \<Rightarrow>
              (saved1,
               (if HnID post > HighestIDSeen result1
                then result1\<lparr>HighestIDSeen := HnID post\<rparr> else result1),
               db2))))"

fun savePostsFrom ::
  "'t Post list \<Rightarrow> int \<times> ScrapingResult \<times> 't Database \<Rightarrow> int \<times> ScrapingResult \<times> 't Database" where
  "savePostsFrom [] st = st"
| "savePostsFrom (post # rest) st = savePostsFrom rest (savePost post st)"

definition savePosts ::
  "'t Post list \<Rightarrow> ScrapingResult \<Rightarrow> 't Database \<Rightarrow> int \<times> ScrapingResult \<times> 't Database" where
  "savePosts ps result db = savePostsFrom ps (0, result, db)"

text \<open>
  The four modes return the result, the error (\<open>None\<close> for \<open>nil\<close>) and the database.
  \<open>time.Sleep\<close> between pages has no effect on any of them.

  \<open>scrapeLatestPage\<close>, lines 201-212.
\<close>

definition scrapeLatestPage ::
  "'t Clock \<Rightarrow> Web \<Rightarrow> SmartScraper \<Rightarrow> ScrapingResult \<Rightarrow> 't Database
   \<Rightarrow> ScrapingResult \<times> ScrapeError option \<times> 't Database" where
  "scrapeLatestPage clk web s result db =
     (case scrapePage clk web (ConfigURL (config s)) 1 of
        Inl err \<Rightarrow> (result, Some err, db)
      | Inr ps \<Rightarrow>
          (case savePosts ps result db of (saved, result1, db1) \<Rightarrow>
             (result1\<lparr>PostsScraped := PostsScraped result1 + saved, PagesScraped := 1\<rparr>,
              None, db1)))"

text \<open>
  \<open>scrapeSinceLast\<close>, lines 214-247: \<open>collectSinceLast\<close> is the loop over the posts of
  one page (it returns \<open>foundLastKnown\<close> and the posts collected), \<open>sinceLastPages\<close> the
  loop over the pages, \<open>insertNewPosts\<close> the final loop.
\<close>

fun collectSinceLast :: "int \<Rightarrow> 't Post list \<Rightarrow> 't Post list \<Rightarrow> bool \<times> 't Post list" where
  "collectSinceLast lastKnownID allNewPosts [] = (False, allNewPosts)"
| "collectSinceLast lastKnownID allNewPosts (post # rest) =
     (if HnID post \<le> lastKnownID then (True, allNewPosts)
      else collectSinceLast lastKnownID (allNewPosts @ [post]) rest)"

function sinceLastPages ::
  "'t Clock \<Rightarrow> Web \<Rightarrow> SmartScraper \<Rightarrow> int \<Rightarrow> int \<Rightarrow> bool \<Rightarrow> 't Post list \<Rightarrow> ScrapingResult
   \<Rightarrow> 't Post list \<times> ScrapingResult" where
  "sinceLastPages clk web s lastKnownID page foundLastKnown allNewPosts result =
     (if page \<le> maxPages s \<and> \<not> foundLastKnown then
        (case scrapePage clk web (buildPageURL s page) page of
           Inl err \<Rightarrow> (allNewPosts, result)
         | Inr ps \<Rightarrow>
             (case collectSinceLast lastKnownID allNewPosts ps of (found, collected) \<Rightarrow>
                sinceLastPages clk web s lastKnownID (page + 1) found collected
                  (result\<lparr>PagesScraped := page\<rparr>)))
      else (allNewPosts, result))"
  by pat_completeness auto
termination
  by (relation "measure (\<lambda>(clk, web, s, k, page, f, a, r). nat (maxPages s + 1 - page))") auto

declare sinceLastPages.simps [simp del]

fun insertNewPosts ::
  "'t Post list \<Rightarrow> ScrapingResult \<Rightarrow> 't Database \<Rightarrow> ScrapingResult \<times> 't Database" where
  "insertNewPosts [] result db = (result, db)"
| "insertNewPosts (post # rest) result db =
     (case InsertPost db post of
        (Inr _, db1) \<Rightarrow>
          insertNewPosts rest
            (result\<lparr>PostsScraped := PostsScraped result + 1, NewPosts := NewPosts result + 1\<rparr>)
            db1
      | (Inl err, db1) \<Rightarrow> insertNewPosts rest result db1)"

definition scrapeSinceLast ::
  "'t Clock \<Rightarrow> Web \<Rightarrow> SmartScraper \<Rightarrow> ScrapingResult \<Rightarrow> int \<Rightarrow> 't Database
   \<Rightarrow> ScrapingResult \<times> ScrapeError option \<times> 't Database" where
  "scrapeSinceLast clk web s result lastKnownID db =
     (case sinceLastPages clk web s lastKnownID 1 False [] result of
        (allNewPosts, result1) \<Rightarrow>
          (case insertNewPosts allNewPosts result1 db of
             (result2, db1) \<Rightarrow> (result2, None, db1)))"

text \<open>
  \<open>scrapeFullArchive\<close>, lines 335-380, from the page the loop is at.
\<close>

function fullArchivePages ::
  "'t Clock \<Rightarrow> Web \<Rightarrow> SmartScraper \<Rightarrow> int \<Rightarrow> ScrapingResult \<Rightarrow> 't Database
   \<Rightarrow> ScrapingResult \<times> 't Database" where
  "fullArchivePages clk web s page result db =
     (if page \<le> maxPages s then
        (case web (buildPageURL s page) of
           GetFailed err \<Rightarrow> (result\<lparr>Errors := Errors result @ [PageFetch page err]\<rparr>, db)
         | ReadFailed err \<Rightarrow> (result\<lparr>Errors := Errors result @ [PageParse page err]\<rparr>, db)
         | Body doc \<Rightarrow>
             (case ParseDocument clk doc of
                (ps, Some err) \<Rightarrow>
                  fullArchivePages clk web s (page + 1)
                    (result\<lparr>Errors := Errors result @ [PagePosts page err]\<rparr>) db
              | (ps, None) \<Rightarrow>
                  if ps = [] then (result, db)
                  else
                    (case savePosts ps result db of (saved, result1, db1) \<Rightarrow>
                       (let result2 = result1\<lparr>PostsScraped := PostsScraped result1 + saved,
                                              PagesScraped := page\<rparr>
                        in if stopOnDuplicate s \<and> saved = 0 then (result2, db1)
                           else fullArchivePages clk web s (page + 1) result2 db1))))
      else (result, db))"
  by pat_completeness auto
termination
  by (relation "measure (\<lambda>(clk, web, s, page, r, d). nat (maxPages s + 1 - page))") auto

declare fullArchivePages.simps [simp del]

definition scrapeFullArchive ::
  "'t Clock \<Rightarrow> Web \<Rightarrow> SmartScraper \<Rightarrow> ScrapingResult \<Rightarrow> 't Database
   \<Rightarrow> ScrapingResult \<times> ScrapeError option \<times> 't Database" where
  "scrapeFullArchive clk web s result db =
     (case fullArchivePages clk web s 1 result db of (result1, db1) \<Rightarrow> (result1, None, db1))"

text \<open>
  \<open>scrapeUntilExisting\<close>, lines 382-440. The loop over the posts of one page either
  returns from the whole function (\<open>Returned\<close>) or ends with the values of
  \<open>duplicateCount\<close> and \<open>newPosts\<close> (\<open>Scanned\<close>).
\<close>

definition duplicateThreshold :: int where
  "duplicateThreshold = 5"

datatype 't PageScan =
  Returned ScrapingResult "'t Database"
| Scanned int int ScrapingResult "'t Database"

fun untilExistingPosts ::
  "'t Post list \<Rightarrow> int \<Rightarrow> int \<Rightarrow> ScrapingResult \<Rightarrow> 't Database \<Rightarrow> 't PageScan" where
  "untilExistingPosts [] duplicateCount newPosts result db =
     Scanned duplicateCount newPosts result db"
| "untilExistingPosts (post # rest) duplicateCount newPosts result db =
     (case PostExists db (HnID post) of
        ((exists, Some err), db1) \<Rightarrow>
          untilExistingPosts rest duplicateCount newPosts result db1
      | ((exists, None), db1) \<Rightarrow>
          if exists then
            (if duplicateCount + 1 \<ge> duplicateThreshold then Returned result db1
             else untilExistingPosts rest (duplicateCount + 1) newPosts result db1)
          else
            (case InsertPost db1 post of
               (Inr _, db2) \<Rightarrow>
                 untilExistingPosts rest 0 (newPosts + 1)
                   (result\<lparr>NewPosts := NewPosts result + 1\<rparr>) db2
             | (Inl err, db2) \<Rightarrow> untilExistingPosts rest 0 newPosts result db2))"

function untilExistingPages ::
  "'t Clock \<Rightarrow> Web \<Rightarrow> SmartScraper \<Rightarrow> int \<Rightarrow> int \<Rightarrow> int \<Rightarrow> ScrapingResult \<Rightarrow> 't Database
   \<Rightarrow> ScrapingResult \<times> 't Database" where
  "untilExistingPages clk web s page duplicateCount consecutiveEmptyPages result db =
     (if page \<le> maxPages s then
        (case scrapePage clk web (buildPageURL s page) page of
           Inl err \<Rightarrow> (result\<lparr>Errors := Errors result @ [PageScrape page err]\<rparr>, db)
         | Inr ps \<Rightarrow>
             if ps = [] then
               (if consecutiveEmptyPages + 1 \<ge> 2 then (result, db)
                else untilExistingPages clk web s (page + 1) duplicateCount
                       (consecutiveEmptyPages + 1) result db)
             else
               (case untilExistingPosts ps duplicateCount 0 result db of
                  Returned result1 db1 \<Rightarrow> (result1, db1)
                | Scanned duplicateCount1 newPosts result1 db1 \<Rightarrow>
                    (let result2 = result1\<lparr>PostsScraped := PostsScraped result1 + newPosts,
                                           PagesScraped := page\<rparr>
                     in if newPosts = 0 then (result2, db1)
                        else untilExistingPages clk web s (page + 1) duplicateCount1 0
                               result2 db1)))
      else (result, db))"
  by pat_completeness auto
termination
  by (relation "measure (\<lambda>(clk, web, s, page, d, e, r, db). nat (maxPages s + 1 - page))") auto

declare untilExistingPages.simps [simp del]

definition scrapeUntilExisting ::
  "'t Clock \<Rightarrow> Web \<Rightarrow> SmartScraper \<Rightarrow> ScrapingResult \<Rightarrow> 't Database
   \<Rightarrow> ScrapingResult \<times> ScrapeError option \<times> 't Database" where
  "scrapeUntilExisting clk web s result db =
     (case untilExistingPages clk web s 1 0 0 result db of
        (result1, db1) \<Rightarrow> (result1, None, db1))"

text \<open>
  \<open>ScrapeWithStrategy\<close>, lines 166-199: the result object, the error and the database
  after the run. The result is returned whatever the error is.
\<close>

definition newResult :: "ScrapingMode \<Rightarrow> ScrapingResult" where
  "newResult m =
     \<lparr>Mode = m, PagesScraped = 0, PostsScraped = 0, NewPosts = 0, UpdatedPosts = 0,
      DeletedPosts = 0, LastKnownID = 0, HighestIDSeen = 0, Errors = []\<rparr>"

definition ScrapeWithStrategy ::
  "'t Clock \<Rightarrow> Web \<Rightarrow> SmartScraper \<Rightarrow> 't Database
   \<Rightarrow> ScrapingResult \<times> ScrapeError option \<times> 't Database" where
  "ScrapeWithStrategy clk web s db =
     (case GetLatestHNPostID db of ((lastKnownID, err0), db1) \<Rightarrow>
        (let result = (newResult (mode s))\<lparr>LastKnownID := lastKnownID\<rparr>
         in case (case mode s of
                    ModeLatestOnly \<Rightarrow> scrapeLatestPage clk web s result db1
                  | ModeUntilExisting \<Rightarrow> scrapeUntilExisting clk web s result db1
                  | ModeSinceLast \<Rightarrow> scrapeSinceLast clk web s result lastKnownID db1
                  | ModeFullArchive \<Rightarrow> scrapeFullArchive clk web s result db1
                  | ModeOther m \<Rightarrow> scrapeLatestPage clk web s result db1)
            of (result1, err, db2) \<Rightarrow>
              (result1, err, snd (CreateDetailedScrapingJob db2 result1))))"

section \<open>The basic scraper's save loop\<close>

text \<open>
  The loop of \<open>Scraper.ScrapeOnce\<close> that stores the parsed posts (basic scraper, lines
  74-90): the count \<open>saved\<close> and the database. After a successful insert it appends a
  history snapshot under the \<open>id\<close> that the insert returned.
\<close>

fun scrapeOnceSave :: "'t Clock \<Rightarrow> 't Post list \<Rightarrow> int \<Rightarrow> 't Database \<Rightarrow> int \<times> 't Database" where
  "scrapeOnceSave clk [] saved db = (saved, db)"
| "scrapeOnceSave clk (post # rest) saved db =
     (let post1 = (if time_IsZero clk (PostTime post) \<or> time_Year clk (PostTime post) < 2000
                   then post\<lparr>PostTime := time_Now clk\<rparr> else post)
      in case InsertPost db post1 of
           (Inl err, db1) \<Rightarrow> scrapeOnceSave clk rest saved db1
         | (Inr newID, db1) \<Rightarrow>
             scrapeOnceSave clk rest (saved + 1)
               (if newID > 0
                then snd (InsertPostHistory db1 newID (Points post1) (CommentsCount post1))
                else db1))"

section \<open>The source scheduler (multi scheduler)\<close>

text \<open>
  \<open>config.GetScraper\<close> on the list of configured scrapers.
\<close>

definition GetScraper :: "ScraperConfig list \<Rightarrow> string \<Rightarrow> string + ScraperConfig" where
  "GetScraper cfgs name =
     (case find (\<lambda>scraper. ConfigName scraper = name) cfgs of
        Some scraper \<Rightarrow> Inr scraper
      | None \<Rightarrow> Inl (''scraper '' @ [CHR 0x27] @ name @ [CHR 0x27] @ '' not found''))"

definition NewGenericScraper :: "ScraperConfig list \<Rightarrow> string \<Rightarrow> string + ScraperConfig" where
  "NewGenericScraper cfgs scraperName =
     (case GetScraper cfgs scraperName of
        Inl err \<Rightarrow> Inl (''scraper '' @ scraperName @ '' not found in config: '' @ err)
      | Inr scraperConfig \<Rightarrow> Inr scraperConfig)"

text \<open>
  A \<open>ScraperJob\<close> holds the scraper (its configuration), the ticker (its interval), the
  stop channel and the flag. The scheduler is the map \<open>scrapers\<close> from names to jobs; the
  lock makes every method one atomic step. Of the Go runtime the model keeps the
  channels made so far (a channel is its number), the channels that were closed, and
  the goroutines that were started: the immediate first run of a source, and the
  polling loop of a source, which runs until its stop channel is closed.
\<close>

record ScraperJob =
  Scraper :: ScraperConfig
  Ticker :: int
  StopChan :: nat
  IsActive :: bool

datatype Goroutine =
  FirstRun string
| TickLoop string nat

record MultiScheduler =
  scrapers :: "(string \<times> ScraperJob) list"
  channels :: nat
  closed :: "nat list"
  goroutines :: "Goroutine list"

definition NewMultiScheduler :: MultiScheduler where
  "NewMultiScheduler = \<lparr>scrapers = [], channels = 0, closed = [], goroutines = []\<rparr>"

datatype Outcome =
  Ok
| Failed string
| Panicked string

text \<open>
  \<open>StartScraper\<close>, lines 32-81. \<open>time.NewTicker\<close> panics on an interval that is not
  positive; the deferred unlock runs and the map is as before.
\<close>

definition StartScraper ::
  "ScraperConfig list \<Rightarrow> MultiScheduler \<Rightarrow> string \<Rightarrow> int \<Rightarrow> Outcome \<times> MultiScheduler" where
  "StartScraper cfgs s name interval =
     (if (case map_of (scrapers s) name of Some job \<Rightarrow> IsActive job | None \<Rightarrow> False)
      then (Failed (''scraper '' @ name @ '' is already running''), s)
      else
        (case NewGenericScraper cfgs name of
           Inl err \<Rightarrow> (Failed (''failed to create scraper '' @ name @ '': '' @ err), s)
         | Inr scraperInstance \<Rightarrow>
             if interval \<le> 0 then (Panicked ''non-positive interval for NewTicker'', s)
             else
               (let job = \<lparr>Scraper = scraperInstance, Ticker = interval,
                           StopChan = channels s, IsActive = True\<rparr>
                in (Ok,
                    s\<lparr>scrapers := AList.update name job (scrapers s),
                      channels := channels s + 1,
                      goroutines := goroutines s @ [FirstRun name, TickLoop name (channels s)]\<rparr>))))"

text \<open>\<open>StopScraper\<close>, lines 83-98.\<close>

definition StopScraper :: "MultiScheduler \<Rightarrow> string \<Rightarrow> Outcome \<times> MultiScheduler" where
  "StopScraper s name =
     (case map_of (scrapers s) name of
        None \<Rightarrow> (Failed (''scraper '' @ name @ '' is not running''), s)
      | Some job \<Rightarrow>
          if \<not> IsActive job then (Failed (''scraper '' @ name @ '' is not running''), s)
          else (Ok,
                s\<lparr>scrapers := AList.update name (job\<lparr>IsActive := False\<rparr>) (scrapers s),
                  closed := closed s @ [StopChan job]\<rparr>))"

text \<open>\<open>StopAll\<close>, lines 100-112.\<close>

definition StopAll :: "MultiScheduler \<Rightarrow> MultiScheduler" where
  "StopAll s =
     s\<lparr>scrapers := map (\<lambda>(name, job). (name, job\<lparr>IsActive := False\<rparr>)) (scrapers s),
       closed := closed s @ map (\<lambda>(name, job). StopChan job)
                              (filter (\<lambda>(name, job). IsActive job) (scrapers s))\<rparr>"

text \<open>The method \<open>IsActive\<close>, lines 114-120, and \<open>GetActiveScrapers\<close>, lines 122-133.\<close>

definition SchedulerIsActive :: "MultiScheduler \<Rightarrow> string \<Rightarrow> bool" where
  "SchedulerIsActive s name =
     (case map_of (scrapers s) name of Some job \<Rightarrow> IsActive job | None \<Rightarrow> False)"

definition GetActiveScrapers :: "MultiScheduler \<Rightarrow> string list" where
  "GetActiveScrapers s = map fst (filter (\<lambda>(name, job). IsActive job) (scrapers s))"

text \<open>
  The control calls a client can make, and the scheduler after a sequence of them.
  \<open>activeEntries\<close> are the entries of the map under a name that are flagged active,
  \<open>liveLoops\<close> the polling loops of a name whose stop channel is still open.
\<close>

datatype Call =
  CallStart string int
| CallStop string
| CallStopAll

fun call :: "ScraperConfig list \<Rightarrow> MultiScheduler \<Rightarrow> Call \<Rightarrow> MultiScheduler" where
  "call cfgs s (CallStart name interval) = snd (StartScraper cfgs s name interval)"
| "call cfgs s (CallStop name) = snd (StopScraper s name)"
| "call cfgs s CallStopAll = StopAll s"

definition calls :: "ScraperConfig list \<Rightarrow> Call list \<Rightarrow> MultiScheduler" where
  "calls cfgs cs = foldl (call cfgs) NewMultiScheduler cs"

definition activeEntries :: "MultiScheduler \<Rightarrow> string \<Rightarrow> (string \<times> ScraperJob) list" where
  "activeEntries s name = filter (\<lambda>(n, job). n = name \<and> IsActive job) (scrapers s)"

definition liveLoops :: "MultiScheduler \<Rightarrow> string \<Rightarrow> Goroutine list" where
  "liveLoops s name =
     filter (\<lambda>g. case g of
                   TickLoop n c \<Rightarrow> n = name \<and> c \<notin> set (closed s)
                 | FirstRun n \<Rightarrow> False)
            (goroutines s)"

section \<open>Example data\<close>

text \<open>
  The source of \<open>config.LoadDefault\<close>, and a source on another site.
\<close>

definition hackernewsConfig :: ScraperConfig where
  "hackernewsConfig =
     \<lparr>ConfigName = ''hackernews'', ConfigURL = ''https://news.ycombinator.com/newest'',
      ConfigInterval = 300000000000, ConfigEnabled = True\<rparr>"


text \<open>Whether an entry of \<open>Errors\<close> was appended for an error of \<open>ParseDocument\<close>.\<close>

fun isPagePosts :: "PageError \<Rightarrow> bool" where
  "isPagePosts (PagePosts p e) = True"
| "isPagePosts _ = False"

text \<open>
  The stop channels of the polling loops among the goroutines, and the invariant of the
  scheduler: names are unique in the map, every polling loop has a channel of its own,
  every channel that is closed or polled has been made, an active job has its polling
  loop running on an open channel, and a polling loop whose channel is open belongs to
  the active job under its name.
\<close>

fun tickChans :: "Goroutine list \<Rightarrow> nat list" where
  "tickChans [] = []"
| "tickChans (FirstRun n # gs) = tickChans gs"
| "tickChans (TickLoop n c # gs) = c # tickChans gs"

definition schedulerInv :: "MultiScheduler \<Rightarrow> bool" where
  "schedulerInv s =
     (distinct (map fst (scrapers s)) \<and>
      distinct (tickChans (goroutines s)) \<and>
      list_all (\<lambda>c. c < channels s) (closed s) \<and>
      list_all (\<lambda>c. c < channels s) (tickChans (goroutines s)) \<and>
      list_all (\<lambda>(n, job). IsActive job \<longrightarrow>
                  TickLoop n (StopChan job) \<in> set (goroutines s) \<and> StopChan job \<notin> set (closed s))
               (scrapers s) \<and>
      list_all (\<lambda>g. case g of
                     FirstRun n \<Rightarrow> True
                   | TickLoop n c \<Rightarrow>
                       c \<in> set (closed s) \<or>
                       (case map_of (scrapers s) n of
                          None \<Rightarrow> False
                        | Some job \<Rightarrow> IsActive job \<and> StopChan job = c))
               (goroutines s))"



text \<open>
  A clock for the examples: an instant is its number of nanoseconds since the Unix
  epoch, read in UTC on the proleptic Gregorian calendar. \<open>daysFromCivil\<close> and
  \<open>civilFromDays\<close> convert between a date and its day number; \<open>AddDate\<close> normalises an
  overflowing month or day as \<open>time.Date\<close> does. The run reads the clock at
  2023-11-14T22:13:20Z.
\<close>

definition daysFromCivil :: "int \<Rightarrow> int \<Rightarrow> int \<Rightarrow> int" where
  "daysFromCivil y m d =
     (let y1 = (if m \<le> 2 then y - 1 else y);
          era = y1 div 400;
          yoe = y1 - era * 400;
          doy = (153 * (if m > 2 then m - 3 else m + 9) + 2) div 5 + d - 1;
          doe = yoe * 365 + yoe div 4 - yoe div 100 + doy
      in era * 146097 + doe - 719468)"

definition civilFromDays :: "int \<Rightarrow> int \<times> int \<times> int" where
  "civilFromDays z =
     (let z1 = z + 719468;
          era = z1 div 146097;
          doe = z1 - era * 146097;
          yoe = (doe - doe div 1460 + doe div 36524 - doe div 146096) div 365;
          doy = doe - (365 * yoe + yoe div 4 - yoe div 100);
          mp = (5 * doy + 2) div 153;
          d = doy - (153 * mp + 2) div 5 + 1;
          m = (if mp < 10 then mp + 3 else mp - 9)
      in (if m \<le> 2 then yoe + era * 400 + 1 else yoe + era * 400, m, d))"

definition nanosPerDay :: int where
  "nanosPerDay = 86400000000000"

definition utcAddDate :: "int \<Rightarrow> 64 word \<Rightarrow> 64 word \<Rightarrow> 64 word \<Rightarrow> int" where
  "utcAddDate t years months days =
     (case civilFromDays (t div nanosPerDay) of (y, m, d) \<Rightarrow>
        (let m1 = m - 1 + sint months;
             y1 = y + sint years + m1 div 12
         in daysFromCivil y1 (m1 mod 12 + 1) (d + sint days) * nanosPerDay + t mod nanosPerDay))"

definition twoDigits :: "string \<Rightarrow> int option" where
  "twoDigits s = (if length s = 2 \<and> list_all isDigit s then Some (decimalVal s) else None)"

definition utcParse :: "string \<Rightarrow> int option" where
  "utcParse s =
     (if length s = 19 \<and> s ! 4 = CHR ''-'' \<and> s ! 7 = CHR ''-'' \<and> s ! 10 = CHR ''T'' \<and>
         s ! 13 = CHR '':'' \<and> s ! 16 = CHR '':'' \<and> list_all isDigit (take 4 s)
      then
        (case (twoDigits (take 2 (drop 5 s)), twoDigits (take 2 (drop 8 s)),
               twoDigits (take 2 (drop 11 s)), twoDigits (take 2 (drop 14 s)),
               twoDigits (take 2 (drop 17 s))) of
           (Some mo, Some d, Some h, Some mi, Some sec) \<Rightarrow>
             if 1 \<le> mo \<and> mo \<le> 12 \<and> 1 \<le> d \<and> h < 24 \<and> mi < 60 \<and> sec < 60 \<and>
                civilFromDays (daysFromCivil (decimalVal (take 4 s)) mo d) =
                  (decimalVal (take 4 s), mo, d)
             then Some (daysFromCivil (decimalVal (take 4 s)) mo d * nanosPerDay +
                        (h * 3600 + mi * 60 + sec) * 1000000000)
             else None
         | _ \<Rightarrow> None)
      else None)"

definition utcClock :: "int Clock" where
  "utcClock =
     \<lparr>time_Now = 1700000000000000000,
      time_Zero = - 62135596800000000000,
      time_Add = (\<lambda>t d. t + sint d),
      time_AddDate = utcAddDate,
      time_IsZero = (\<lambda>t. t = - 62135596800000000000),
      time_Year = (\<lambda>t. fst (civilFromDays (t div nanosPerDay))),
      time_Parse = utcParse\<rparr>"

text \<open>
  A row of the feed as the site renders it, for an identifier, a score and a number
  of comments; and a network that serves the listed pages and fails on every other URL.
\<close>

definition feedRow :: "int \<Rightarrow> int \<Rightarrow> int \<Rightarrow> AThing" where
  "feedRow hnID points comments =
     \<lparr>id_attr = Some (itoa hnID),
      title_text = ''Story '' @ itoa hnID,
      title_href = Some (''item?id='' @ itoa hnID),
      meta_row = Some \<lparr>score_text = itoa points @ '' points'',
                        hnuser_text = ''alice'',
                        age_elem = None,
                        link_texts = [''hide'', itoa comments @ '' comments'']\<rparr>\<rparr>"

definition serve :: "(string \<times> Response) list \<Rightarrow> Web" where
  "serve pages url =
     (case map_of pages url of
        Some response \<Rightarrow> response
      | None \<Rightarrow> GetFailed ''no such host'')"

definition emptyDatabase :: "int Database" where
  "emptyDatabase = \<lparr>posts = [], post_history = [], posts_id_seq = 1, job_details = [], faults = []\<rparr>"

definition storedPost :: "int \<Rightarrow> int \<Rightarrow> int \<Rightarrow> int Post" where
  "storedPost hnID points comments =
     \<lparr>ID = 0, HnID = hnID, Title = ''Story '' @ itoa hnID,
      URL = ''https://news.ycombinator.com/item?id='' @ itoa hnID, Author = ''alice'',
      Points = points, CommentsCount = comments,
      PostTime = 1700000000000000000, ScrapedAt = 1700000000000000000\<rparr>"

text \<open>
  A store that knows the records 100 and 99, the first page of the feed as the site
  serves it after three newer records have appeared, what \<open>scrapePage\<close> makes of
  that page, and the default source scraped in since-last mode.
\<close>

definition knownStore :: "int Database" where
  "knownStore =
     snd (snd (savePosts [storedPost 100 7 2, storedPost 99 1 1] (newResult ModeLatestOnly) emptyDatabase))"





text \<open>
  The default source scraped in latest-only and in full-archive mode; a listing that
  shows record 101 with a score of 5 and one comment, and the store after a first
  latest-only run against it; a listing that shows only the old record 50; and a site
  with two pages of records and no third page.
\<close>

definition hnLatest :: SmartScraper where
  "hnLatest = NewSmartScraper hackernewsConfig ModeLatestOnly 1"

definition hnFullArchive :: SmartScraper where
  "hnFullArchive = NewSmartScraper hackernewsConfig ModeFullArchive 50"

definition unchangedWeb :: Web where
  "unchangedWeb = serve [(''https://news.ycombinator.com/newest'', Body [feedRow 101 5 1])]"


definition staleWeb :: Web where
  "staleWeb = serve [(''https://news.ycombinator.com/newest'', Body [feedRow 50 3 0])]"

definition archiveWeb :: Web where
  "archiveWeb =
     serve [(''https://news.ycombinator.com/'', Body [feedRow 103 1 0, feedRow 102 1 0]),
            (''https://news.ycombinator.com/?p=2'', Body [feedRow 101 5 1])]"

section \<open>Properties of the page URL\<close>









section \<open>Properties of the record extractor\<close>

lemma parseRows_concat:
  "parseRows clk acc doc =
     acc @ concat (map (\<lambda>row. case parsePost clk row of
                               Inl err \<Rightarrow> []
                             | Inr post \<Rightarrow> if HnID post > 0 then [post] else []) doc)"
  by (induction doc arbitrary: acc) (auto split: sum.splits)

lemma ParseDocument_nil_error: "snd (ParseDocument clk doc) = None"
  by (simp add: ParseDocument_def)

lemma scrapePage_not_PostsFailed: "scrapePage clk web url n \<noteq> Inl (PostsFailed e)"
  by (auto simp: scrapePage_def ParseDocument_def split: Response.splits)

section \<open>The error list of a run\<close>

lemma savePost_Errors: "Errors (fst (snd (savePost post st))) = Errors (fst (snd st))"
  by (auto simp: savePost_def split: prod.splits option.splits sum.splits)

lemma savePostsFrom_Errors: "Errors (fst (snd (savePostsFrom ps st))) = Errors (fst (snd st))"
  by (induction ps arbitrary: st) (simp_all add: savePost_Errors)

lemma savePosts_Errors: "savePosts ps result db = (saved, result1, db1) \<Longrightarrow> Errors result1 = Errors result"
  using savePostsFrom_Errors [of ps "(0, result, db)"] by (simp add: savePosts_def)

lemma insertNewPosts_Errors: "Errors (fst (insertNewPosts ps result db)) = Errors result"
  by (induction ps arbitrary: result db) (auto split: prod.splits sum.splits)

lemma sinceLastPages_Errors:
  "Errors (snd (sinceLastPages clk web s k page f acc result)) = Errors result"
proof (induction clk web s k page f acc result rule: sinceLastPages.induct)
  case (1 clk web s k page f acc result)
  show ?case
    by (subst sinceLastPages.simps) (auto split: sum.splits prod.splits simp: 1)
qed

lemma untilExistingPosts_Errors:
  "(untilExistingPosts ps d n result db = Returned r b \<longrightarrow> Errors r = Errors result) \<and>
   (untilExistingPosts ps d n result db = Scanned d1 n1 r b \<longrightarrow> Errors r = Errors result)"
  by (induction ps arbitrary: d n result db) (auto split: prod.splits sum.splits option.splits if_splits)

lemma untilExistingPosts_Returned_Errors:
  "untilExistingPosts ps d n result db = Returned r b \<Longrightarrow> Errors r = Errors result"
  using untilExistingPosts_Errors by blast

lemma untilExistingPosts_Scanned_Errors:
  "untilExistingPosts ps d n result db = Scanned d1 n1 r b \<Longrightarrow> Errors r = Errors result"
  using untilExistingPosts_Errors by blast

lemma untilExistingPages_Errors:
  "\<not> list_ex isPagePosts (Errors result) \<Longrightarrow>
   \<not> list_ex isPagePosts (Errors (fst (untilExistingPages clk web s page d e result db)))"
proof (induction clk web s page d e result db rule: untilExistingPages.induct)
  case (1 clk web s page d e result db)
  note step = untilExistingPages.simps [of clk web s page d e result db]
  show ?case
  proof (cases "page \<le> maxPages s")
    case False
    then show ?thesis using "1.prems" by (simp add: step)
  next
    case inRange: True
    show ?thesis
    proof (cases "scrapePage clk web (buildPageURL s page) page")
      case (Inl err)
      then show ?thesis using inRange "1.prems" by (simp add: step)
    next
      case (Inr ps)
      show ?thesis
      proof (cases "ps = []")
        case True
        then show ?thesis
          using inRange Inr "1.prems" "1.IH"(1) [OF inRange Inr] by (simp add: step)
      next
        case nonEmpty: False
        show ?thesis
        proof (cases "untilExistingPosts ps d 0 result db")
          case (Returned r b)
          then show ?thesis
            using inRange Inr nonEmpty "1.prems" untilExistingPosts_Returned_Errors [OF Returned]
            by (simp add: step)
        next
          case (Scanned d1 n1 r b)
          have keep: "\<not> list_ex isPagePosts (Errors r)"
            using "1.prems" untilExistingPosts_Scanned_Errors [OF Scanned] by simp
          show ?thesis
          proof (cases "n1 = 0")
            case True
            then show ?thesis using inRange Inr nonEmpty Scanned keep by (simp add: step)
          next
            case False
            then show ?thesis
              using inRange Inr nonEmpty Scanned keep
                "1.IH"(2) [OF inRange Inr nonEmpty Scanned refl False]
              by (simp add: step)
          qed
        qed
      qed
    qed
  qed
qed

lemma fullArchivePages_Errors:
  "\<not> list_ex isPagePosts (Errors result) \<Longrightarrow>
   \<not> list_ex isPagePosts (Errors (fst (fullArchivePages clk web s page result db)))"
proof (induction clk web s page result db rule: fullArchivePages.induct)
  case (1 clk web s page result db)
  note step = fullArchivePages.simps [of clk web s page result db]
  show ?case
  proof (cases "page \<le> maxPages s")
    case False
    then show ?thesis using "1.prems" by (simp add: step)
  next
    case inRange: True
    show ?thesis
    proof (cases "web (buildPageURL s page)")
      case (GetFailed err)
      then show ?thesis using inRange "1.prems" by (simp add: step)
    next
      case (ReadFailed err)
      then show ?thesis using inRange "1.prems" by (simp add: step)
    next
      case (Body doc)
      obtain ps where parsed: "ParseDocument clk doc = (ps, None)"
        by (simp add: ParseDocument_def)
      show ?thesis
      proof (cases "ps = []")
        case True
        then show ?thesis using inRange Body parsed "1.prems" by (simp add: step)
      next
        case nonEmpty: False
        obtain saved r b where saved: "savePosts ps result db = (saved, r, b)"
          by (cases "savePosts ps result db") auto
        have keep: "\<not> list_ex isPagePosts (Errors r)"
          using "1.prems" savePosts_Errors [OF saved] by simp
        show ?thesis
        proof (cases "stopOnDuplicate s \<and> saved = 0")
          case True
          then show ?thesis
            using inRange Body parsed nonEmpty saved keep by (simp add: step)
        next
          case False
          then show ?thesis
            using inRange Body parsed nonEmpty saved keep
              "1.IH"(1) [OF inRange Body parsed [symmetric] refl nonEmpty saved [symmetric] refl refl False]
            by (simp add: step Let_def)
        qed
      qed
    qed
  qed
qed

lemma scrapeLatestPage_Errors:
  "Errors (fst (scrapeLatestPage clk web s result db)) = Errors result"
proof (cases "scrapePage clk web (ConfigURL (config s)) 1")
  case (Inl err)
  then show ?thesis by (simp add: scrapeLatestPage_def)
next
  case (Inr ps)
  obtain saved r b where saved: "savePosts ps result db = (saved, r, b)"
    by (cases "savePosts ps result db") auto
  show ?thesis
    using Inr saved savePosts_Errors [OF saved] by (simp add: scrapeLatestPage_def)
qed

lemma scrapeSinceLast_Errors:
  "Errors (fst (scrapeSinceLast clk web s result k db)) = Errors result"
proof -
  obtain acc r where pages: "sinceLastPages clk web s k 1 False [] result = (acc, r)"
    by (cases "sinceLastPages clk web s k 1 False [] result") auto
  have "Errors r = Errors result"
    using sinceLastPages_Errors [of clk web s k 1 False "[]" result] pages by simp
  moreover have "Errors (fst (insertNewPosts acc r db)) = Errors r"
    by (rule insertNewPosts_Errors)
  ultimately show ?thesis
    using pages by (simp add: scrapeSinceLast_def split_beta)
qed

lemma ScrapeWithStrategy_no_PagePosts:
  "\<not> list_ex isPagePosts (Errors (fst (ScrapeWithStrategy clk web s db)))"
proof -
  obtain k e0 db1 where latest: "GetLatestHNPostID db = ((k, e0), db1)"
    by (cases "GetLatestHNPostID db") auto
  define result where "result = (newResult (mode s))\<lparr>LastKnownID := k\<rparr>"
  have start: "\<not> list_ex isPagePosts (Errors result)"
    by (simp add: result_def newResult_def)
  have "\<not> list_ex isPagePosts (Errors (fst (scrapeLatestPage clk web s result db1)))"
    using start by (simp add: scrapeLatestPage_Errors)
  moreover have "\<not> list_ex isPagePosts (Errors (fst (scrapeSinceLast clk web s result k db1)))"
    using start by (simp add: scrapeSinceLast_Errors)
  moreover have "\<not> list_ex isPagePosts (Errors (fst (scrapeUntilExisting clk web s result db1)))"
    using untilExistingPages_Errors [OF start, of clk web s 1 0 0 db1]
    by (simp add: scrapeUntilExisting_def split_beta)
  moreover have "\<not> list_ex isPagePosts (Errors (fst (scrapeFullArchive clk web s result db1)))"
    using fullArchivePages_Errors [OF start, of clk web s 1 db1]
    by (simp add: scrapeFullArchive_def split_beta)
  ultimately show ?thesis
    using latest
    by (cases "mode s") (simp_all add: ScrapeWithStrategy_def result_def Let_def split_beta)
qed

text \<open>
  C10: \<open>ParseDocument\<close> returns a nil error for every document; a row that fails to
  parse (or whose identifier is not positive) is dropped and the other rows are kept in
  order. So \<open>scrapePage\<close> never returns the error it wraps around a \<open>ParseDocument\<close>
  failure, and no run of the engine, in any mode, appends the \<open>Page N posts\<close> entry of
  the full-archive loop.
\<close>

theorem ParseDocument_never_fails:
  "snd (ParseDocument clk doc) = None \<and>
   fst (ParseDocument clk doc) =
     concat (map (\<lambda>row. case parsePost clk row of
                          Inl err \<Rightarrow> []
                        | Inr post \<Rightarrow> if HnID post > 0 then [post] else []) doc) \<and>
   scrapePage clk web url n \<noteq> Inl (PostsFailed e) \<and>
   PagePosts p e \<notin> set (Errors (fst (ScrapeWithStrategy clk web s db)))"
proof -
  have "PagePosts p e \<notin> set (Errors (fst (ScrapeWithStrategy clk web s db)))"
    using ScrapeWithStrategy_no_PagePosts [of clk web s db]
    by (auto simp: list_ex_iff)
  then show ?thesis
    using parseRows_concat [of clk "[]" doc] scrapePage_not_PostsFailed [of clk web url n e]
    by (simp add: ParseDocument_def)
qed

section \<open>Properties of the source scheduler\<close>

lemma tickChans_append [simp]: "tickChans (gs @ hs) = tickChans gs @ tickChans hs"
  by (induction gs rule: tickChans.induct) auto

lemma TickLoop_in_tickChans: "TickLoop n c \<in> set gs \<Longrightarrow> c \<in> set (tickChans gs)"
  by (induction gs rule: tickChans.induct) auto

lemma schedulerInv_New: "schedulerInv NewMultiScheduler"
  by (simp add: schedulerInv_def NewMultiScheduler_def)

lemma map_of_update_other: "n \<noteq> name \<Longrightarrow> map_of (AList.update name v al) n = map_of al n"
  by (simp add: update_conv')

lemma map_of_update_same: "map_of (AList.update name v al) name = Some v"
  by (simp add: update_conv')

lemma in_update_cases:
  assumes "distinct (map fst al)" and "(n, j) \<in> set (AList.update name v al)"
  shows "(n = name \<and> j = v) \<or> (n \<noteq> name \<and> (n, j) \<in> set al)"
proof -
  have "distinct (map fst (AList.update name v al))"
    using assms(1) by (simp add: distinct_update)
  then have "map_of (AList.update name v al) n = Some j"
    using assms(2) by simp
  then have "((map_of al)(name \<mapsto> v)) n = Some j"
    by (simp add: update_conv')
  then show ?thesis
    by (auto split: if_splits dest: map_of_SomeD)
qed

lemma schedulerInv_facts:
  assumes "schedulerInv s"
  shows "distinct (map fst (scrapers s))"
    and "distinct (tickChans (goroutines s))"
    and "\<And>c. c \<in> set (closed s) \<Longrightarrow> c < channels s"
    and "\<And>c. c \<in> set (tickChans (goroutines s)) \<Longrightarrow> c < channels s"
    and "\<And>n job. (n, job) \<in> set (scrapers s) \<Longrightarrow> IsActive job \<Longrightarrow>
           TickLoop n (StopChan job) \<in> set (goroutines s) \<and> StopChan job \<notin> set (closed s)"
    and "\<And>n c. TickLoop n c \<in> set (goroutines s) \<Longrightarrow> c \<notin> set (closed s) \<Longrightarrow>
           \<exists>job. map_of (scrapers s) n = Some job \<and> IsActive job \<and> StopChan job = c"
proof -
  show "distinct (map fst (scrapers s))" and "distinct (tickChans (goroutines s))"
    using assms by (simp_all add: schedulerInv_def)
  show "\<And>c. c \<in> set (closed s) \<Longrightarrow> c < channels s"
    using assms by (simp add: schedulerInv_def list_all_iff)
  show "\<And>c. c \<in> set (tickChans (goroutines s)) \<Longrightarrow> c < channels s"
    using assms by (simp add: schedulerInv_def list_all_iff)
  show "\<And>n job. (n, job) \<in> set (scrapers s) \<Longrightarrow> IsActive job \<Longrightarrow>
           TickLoop n (StopChan job) \<in> set (goroutines s) \<and> StopChan job \<notin> set (closed s)"
    using assms unfolding schedulerInv_def list_all_iff by blast
  have six: "\<forall>g\<in>set (goroutines s). case g of
                 FirstRun n \<Rightarrow> True
               | TickLoop n c \<Rightarrow>
                   c \<in> set (closed s) \<or>
                   (case map_of (scrapers s) n of
                      None \<Rightarrow> False
                    | Some job \<Rightarrow> IsActive job \<and> StopChan job = c)"
    using assms unfolding schedulerInv_def list_all_iff by blast
  show "\<exists>job. map_of (scrapers s) n = Some job \<and> IsActive job \<and> StopChan job = c"
    if "TickLoop n c \<in> set (goroutines s)" and "c \<notin> set (closed s)" for n c
  proof -
    from six that(1) have "c \<in> set (closed s) \<or>
        (case map_of (scrapers s) n of None \<Rightarrow> False | Some job \<Rightarrow> IsActive job \<and> StopChan job = c)"
      by force
    with that(2) show ?thesis by (cases "map_of (scrapers s) n") auto
  qed
qed

lemma schedulerInvI:
  assumes "distinct (map fst (scrapers s))"
    and "distinct (tickChans (goroutines s))"
    and "\<And>c. c \<in> set (closed s) \<Longrightarrow> c < channels s"
    and "\<And>c. c \<in> set (tickChans (goroutines s)) \<Longrightarrow> c < channels s"
    and "\<And>n job. (n, job) \<in> set (scrapers s) \<Longrightarrow> IsActive job \<Longrightarrow>
           TickLoop n (StopChan job) \<in> set (goroutines s) \<and> StopChan job \<notin> set (closed s)"
    and "\<And>n c. TickLoop n c \<in> set (goroutines s) \<Longrightarrow> c \<notin> set (closed s) \<Longrightarrow>
           \<exists>job. map_of (scrapers s) n = Some job \<and> IsActive job \<and> StopChan job = c"
  shows "schedulerInv s"
proof -
  have three: "\<forall>c\<in>set (closed s). c < channels s" using assms(3) by blast
  have four: "\<forall>c\<in>set (tickChans (goroutines s)). c < channels s" using assms(4) by blast
  have five: "\<forall>x\<in>set (scrapers s). case x of (n, job) \<Rightarrow> IsActive job \<longrightarrow>
                TickLoop n (StopChan job) \<in> set (goroutines s) \<and> StopChan job \<notin> set (closed s)"
    using assms(5) by blast
  have six: "\<forall>g\<in>set (goroutines s). case g of
                 FirstRun n \<Rightarrow> True
               | TickLoop n c \<Rightarrow>
                   c \<in> set (closed s) \<or>
                   (case map_of (scrapers s) n of
                      None \<Rightarrow> False
                    | Some job \<Rightarrow> IsActive job \<and> StopChan job = c)"
  proof
    fix g assume gm: "g \<in> set (goroutines s)"
    show "case g of
            FirstRun n \<Rightarrow> True
          | TickLoop n c \<Rightarrow>
              c \<in> set (closed s) \<or>
              (case map_of (scrapers s) n of
                 None \<Rightarrow> False
               | Some job \<Rightarrow> IsActive job \<and> StopChan job = c)"
    proof (cases g)
      case (FirstRun n)
      then show ?thesis by simp
    next
      case (TickLoop n c)
      show ?thesis
      proof (cases "c \<in> set (closed s)")
        case True
        then show ?thesis using TickLoop by simp
      next
        case False
        from assms(6) [OF gm [unfolded TickLoop] False] obtain job
          where "map_of (scrapers s) n = Some job" "IsActive job" "StopChan job = c" by blast
        then show ?thesis using TickLoop by simp
      qed
    qed
  qed
  show ?thesis
    unfolding schedulerInv_def list_all_iff
    using assms(1,2) three four five six by blast
qed

lemma tick_same_chan:
  "distinct (tickChans gs) \<Longrightarrow> TickLoop n c \<in> set gs \<Longrightarrow> TickLoop m c \<in> set gs \<Longrightarrow> n = m"
  by (induction gs rule: tickChans.induct) (auto dest: TickLoop_in_tickChans)

lemma schedulerInv_Start:
  assumes inv: "schedulerInv s"
  shows "schedulerInv (snd (StartScraper cfgs s name interval))"
proof (cases "\<exists>t. StartScraper cfgs s name interval = (Ok, t)")
  case False
  then have "snd (StartScraper cfgs s name interval) = s"
    by (auto simp: StartScraper_def Let_def split: option.splits sum.splits if_splits)
  then show ?thesis using inv by simp
next
  case True
  then obtain cfg where
    inactive: "\<not> (case map_of (scrapers s) name of Some job \<Rightarrow> IsActive job | None \<Rightarrow> False)"
    and t: "snd (StartScraper cfgs s name interval) =
       s\<lparr>scrapers := AList.update name \<lparr>Scraper = cfg, Ticker = interval, StopChan = channels s, IsActive = True\<rparr> (scrapers s),
         channels := channels s + 1,
         goroutines := goroutines s @ [FirstRun name, TickLoop name (channels s)]\<rparr>"
    by (auto simp: StartScraper_def Let_def split: option.splits sum.splits if_splits)
  let ?job = "\<lparr>Scraper = cfg, Ticker = interval, StopChan = channels s, IsActive = True\<rparr>"
  note f = schedulerInv_facts [OF inv]
  have fresh1: "channels s \<notin> set (closed s)" using f(3) by auto
  have fresh2: "channels s \<notin> set (tickChans (goroutines s))" using f(4) by auto
  show ?thesis
    unfolding t
  proof (rule schedulerInvI)
    show "distinct (map fst (scrapers (s\<lparr>scrapers := AList.update name ?job (scrapers s),
         channels := channels s + 1,
         goroutines := goroutines s @ [FirstRun name, TickLoop name (channels s)]\<rparr>)))"
      using f(1) by (simp add: distinct_update)
  next
    show "distinct (tickChans (goroutines (s\<lparr>scrapers := AList.update name ?job (scrapers s),
         channels := channels s + 1,
         goroutines := goroutines s @ [FirstRun name, TickLoop name (channels s)]\<rparr>)))"
      using f(2) fresh2 by simp
  next
    fix c
    assume "c \<in> set (closed (s\<lparr>scrapers := AList.update name ?job (scrapers s),
         channels := channels s + 1,
         goroutines := goroutines s @ [FirstRun name, TickLoop name (channels s)]\<rparr>))"
    then show "c < channels (s\<lparr>scrapers := AList.update name ?job (scrapers s),
         channels := channels s + 1,
         goroutines := goroutines s @ [FirstRun name, TickLoop name (channels s)]\<rparr>)"
      using f(3) [of c] by simp
  next
    fix c
    assume "c \<in> set (tickChans (goroutines (s\<lparr>scrapers := AList.update name ?job (scrapers s),
         channels := channels s + 1,
         goroutines := goroutines s @ [FirstRun name, TickLoop name (channels s)]\<rparr>)))"
    then show "c < channels (s\<lparr>scrapers := AList.update name ?job (scrapers s),
         channels := channels s + 1,
         goroutines := goroutines s @ [FirstRun name, TickLoop name (channels s)]\<rparr>)"
      using f(4) [of c] by auto
  next
    fix n job
    assume "(n, job) \<in> set (scrapers (s\<lparr>scrapers := AList.update name ?job (scrapers s),
         channels := channels s + 1,
         goroutines := goroutines s @ [FirstRun name, TickLoop name (channels s)]\<rparr>))"
      and act: "IsActive job"
    then have mem: "(n, job) \<in> set (AList.update name ?job (scrapers s))" by simp
    from in_update_cases [OF f(1) mem]
    have "TickLoop n (StopChan job) \<in> set (goroutines s @ [FirstRun name, TickLoop name (channels s)]) \<and>
          StopChan job \<notin> set (closed s)"
      using f(5) act fresh1 by auto
    then show "TickLoop n (StopChan job) \<in> set (goroutines (s\<lparr>scrapers := AList.update name ?job (scrapers s),
         channels := channels s + 1,
         goroutines := goroutines s @ [FirstRun name, TickLoop name (channels s)]\<rparr>)) \<and>
       StopChan job \<notin> set (closed (s\<lparr>scrapers := AList.update name ?job (scrapers s),
         channels := channels s + 1,
         goroutines := goroutines s @ [FirstRun name, TickLoop name (channels s)]\<rparr>))"
      by simp
  next
    fix n c
    assume "TickLoop n c \<in> set (goroutines (s\<lparr>scrapers := AList.update name ?job (scrapers s),
         channels := channels s + 1,
         goroutines := goroutines s @ [FirstRun name, TickLoop name (channels s)]\<rparr>))"
      and "c \<notin> set (closed (s\<lparr>scrapers := AList.update name ?job (scrapers s),
         channels := channels s + 1,
         goroutines := goroutines s @ [FirstRun name, TickLoop name (channels s)]\<rparr>))"
    then have gm: "TickLoop n c \<in> set (goroutines s) \<or> (n = name \<and> c = channels s)"
      and op: "c \<notin> set (closed s)" by auto
    have "\<exists>job. map_of (AList.update name ?job (scrapers s)) n = Some job \<and> IsActive job \<and> StopChan job = c"
      using gm
    proof
      assume old: "TickLoop n c \<in> set (goroutines s)"
      from f(6) [OF old op] obtain j where j: "map_of (scrapers s) n = Some j" "IsActive j" "StopChan j = c"
        by blast
      then have "n \<noteq> name" using inactive by auto
      then show ?thesis using j by (simp add: map_of_update_other)
    next
      assume "n = name \<and> c = channels s"
      then show ?thesis by (simp add: map_of_update_same)
    qed
    then show "\<exists>job. map_of (scrapers (s\<lparr>scrapers := AList.update name ?job (scrapers s),
         channels := channels s + 1,
         goroutines := goroutines s @ [FirstRun name, TickLoop name (channels s)]\<rparr>)) n = Some job \<and>
         IsActive job \<and> StopChan job = c"
      by simp
  qed
qed

lemma schedulerInv_Stop:
  assumes inv: "schedulerInv s"
  shows "schedulerInv (snd (StopScraper s name))"
proof (cases "\<exists>t. StopScraper s name = (Ok, t)")
  case False
  then have "snd (StopScraper s name) = s"
    by (auto simp: StopScraper_def split: option.splits if_splits)
  then show ?thesis using inv by simp
next
  case True
  then obtain job where
    job: "map_of (scrapers s) name = Some job" and active: "IsActive job"
    and t: "snd (StopScraper s name) =
       s\<lparr>scrapers := AList.update name (job\<lparr>IsActive := False\<rparr>) (scrapers s),
         closed := closed s @ [StopChan job]\<rparr>"
    by (auto simp: StopScraper_def split: option.splits if_splits)
  let ?t = "s\<lparr>scrapers := AList.update name (job\<lparr>IsActive := False\<rparr>) (scrapers s),
         closed := closed s @ [StopChan job]\<rparr>"
  note f = schedulerInv_facts [OF inv]
  have mem: "(name, job) \<in> set (scrapers s)" using job by (rule map_of_SomeD)
  have loop: "TickLoop name (StopChan job) \<in> set (goroutines s)" using f(5) [OF mem active] by simp
  have bound: "StopChan job < channels s"
    using f(4) TickLoop_in_tickChans [OF loop] by simp
  show ?thesis
    unfolding t
  proof (rule schedulerInvI)
    show "distinct (map fst (scrapers ?t))" using f(1) by (simp add: distinct_update)
  next
    show "distinct (tickChans (goroutines ?t))" using f(2) by simp
  next
    fix c assume "c \<in> set (closed ?t)"
    then show "c < channels ?t" using f(3) [of c] bound by auto
  next
    fix c assume "c \<in> set (tickChans (goroutines ?t))"
    then show "c < channels ?t" using f(4) [of c] by simp
  next
    fix n j assume "(n, j) \<in> set (scrapers ?t)" and act: "IsActive j"
    then have m: "(n, j) \<in> set (AList.update name (job\<lparr>IsActive := False\<rparr>) (scrapers s))" by simp
    from in_update_cases [OF f(1) m] act have other: "n \<noteq> name" and old: "(n, j) \<in> set (scrapers s)"
      by auto
    have l: "TickLoop n (StopChan j) \<in> set (goroutines s)" and o: "StopChan j \<notin> set (closed s)"
      using f(5) [OF old act] by simp_all
    have "StopChan j \<noteq> StopChan job"
      using tick_same_chan [OF f(2) l, of name] loop other by auto
    then show "TickLoop n (StopChan j) \<in> set (goroutines ?t) \<and> StopChan j \<notin> set (closed ?t)"
      using l o by simp
  next
    fix n c assume "TickLoop n c \<in> set (goroutines ?t)" and "c \<notin> set (closed ?t)"
    then have gm: "TickLoop n c \<in> set (goroutines s)" and op: "c \<notin> set (closed s)"
      and ne: "c \<noteq> StopChan job" by auto
    from f(6) [OF gm op] obtain j where j: "map_of (scrapers s) n = Some j" "IsActive j" "StopChan j = c"
      by blast
    have "n \<noteq> name" using j job ne by auto
    then have "map_of (AList.update name (job\<lparr>IsActive := False\<rparr>) (scrapers s)) n = Some j"
      using j by (simp add: map_of_update_other)
    then show "\<exists>job. map_of (scrapers ?t) n = Some job \<and> IsActive job \<and> StopChan job = c"
      using j by simp
  qed
qed

lemma schedulerInv_StopAll:
  assumes inv: "schedulerInv s"
  shows "schedulerInv (StopAll s)"
proof -
  note f = schedulerInv_facts [OF inv]
  let ?stopped = "map (\<lambda>(name, job). StopChan job) (filter (\<lambda>(name, job). IsActive job) (scrapers s))"
  let ?jobs = "map (\<lambda>(name, job). (name, job\<lparr>IsActive := False\<rparr>)) (scrapers s)"
  let ?t = "s\<lparr>scrapers := ?jobs, closed := closed s @ ?stopped\<rparr>"
  have t: "StopAll s = ?t" by (simp add: StopAll_def)
  have stoppedBound: "c < channels s" if "c \<in> set ?stopped" for c
  proof -
    from that obtain n job where m: "(n, job) \<in> set (scrapers s)" and a: "IsActive job" and c: "c = StopChan job"
      by auto
    then show "c < channels s"
      using f(4) TickLoop_in_tickChans f(5) [OF m a] by blast
  qed
  show ?thesis
    unfolding t
  proof (rule schedulerInvI)
    have "map fst (scrapers ?t) = map fst (scrapers s)" by (simp add: comp_def case_prod_beta)
    then show "distinct (map fst (scrapers ?t))" using f(1) by (simp only:)
  next
    show "distinct (tickChans (goroutines ?t))" using f(2) by simp
  next
    fix c assume "c \<in> set (closed ?t)"
    then have "c \<in> set (closed s) \<or> c \<in> set ?stopped" by simp
    then have "c < channels s" using f(3) [of c] stoppedBound [of c] by blast
    then show "c < channels ?t" by simp
  next
    fix c assume "c \<in> set (tickChans (goroutines ?t))"
    then show "c < channels ?t" using f(4) [of c] by simp
  next
    fix n j assume "(n, j) \<in> set (scrapers ?t)" and act: "IsActive j"
    then have "False" by auto
    then show "TickLoop n (StopChan j) \<in> set (goroutines ?t) \<and> StopChan j \<notin> set (closed ?t)" ..
  next
    fix n c assume "TickLoop n c \<in> set (goroutines ?t)" and "c \<notin> set (closed ?t)"
    then have gm: "TickLoop n c \<in> set (goroutines s)" and op: "c \<notin> set (closed s)"
      and ns: "c \<notin> set ?stopped" by auto
    from f(6) [OF gm op] obtain j where j: "map_of (scrapers s) n = Some j" "IsActive j" "StopChan j = c"
      by blast
    have "(n, j) \<in> set (scrapers s)" using j(1) by (rule map_of_SomeD)
    then have "c \<in> set ?stopped" using j(2,3) by force
    then show "\<exists>job. map_of (scrapers ?t) n = Some job \<and> IsActive job \<and> StopChan job = c"
      using ns by simp
  qed
qed

lemma schedulerInv_call: "schedulerInv s \<Longrightarrow> schedulerInv (call cfgs s c)"
  by (cases c) (simp_all add: schedulerInv_Start schedulerInv_Stop schedulerInv_StopAll)

lemma schedulerInv_foldl: "schedulerInv s \<Longrightarrow> schedulerInv (foldl (call cfgs) s cs)"
  by (induction cs arbitrary: s) (simp_all add: schedulerInv_call)

lemma schedulerInv_calls: "schedulerInv (calls cfgs cs)"
  by (simp add: calls_def schedulerInv_foldl schedulerInv_New)

lemma filter_at_most_one:
  "distinct (tickChans gs) \<Longrightarrow>
   (\<And>g. g \<in> set gs \<Longrightarrow> P g \<Longrightarrow> g = TickLoop n c) \<Longrightarrow>
   length (filter P gs) \<le> 1"
proof (induction gs rule: tickChans.induct)
  case 1
  then show ?case by simp
next
  case (2 m gs)
  then show ?case by auto
next
  case (3 m d gs)
  show ?case
  proof (cases "P (TickLoop m d)")
    case False
    then show ?thesis using 3 by auto
  next
    case True
    then have eq: "m = n" "d = c" using "3.prems"(2) [of "TickLoop m d"] by auto
    have "filter P gs = []"
    proof (rule ccontr)
      assume "filter P gs \<noteq> []"
      then obtain g where "g \<in> set gs" "P g" by (auto simp: filter_empty_conv)
      then have "TickLoop n c \<in> set gs" using "3.prems"(2) [of g] by auto
      then have "c \<in> set (tickChans gs)" by (rule TickLoop_in_tickChans)
      then show False using "3.prems"(1) eq by simp
    qed
    then show ?thesis by simp
  qed
qed

lemma liveLoops_count:
  assumes inv: "schedulerInv s"
  shows "length (liveLoops s name) = (if SchedulerIsActive s name then 1 else 0)"
proof (cases "SchedulerIsActive s name")
  case True
  note f = schedulerInv_facts [OF inv]
  from True obtain job where job: "map_of (scrapers s) name = Some job" and act: "IsActive job"
    by (auto simp: SchedulerIsActive_def split: option.splits)
  have mem: "(name, job) \<in> set (scrapers s)" using job by (rule map_of_SomeD)
  have l: "TickLoop name (StopChan job) \<in> set (goroutines s)" and o: "StopChan job \<notin> set (closed s)"
    using f(5) [OF mem act] by simp_all
  have "TickLoop name (StopChan job) \<in> set (liveLoops s name)"
    using l o by (simp add: liveLoops_def)
  then have ge: "1 \<le> length (liveLoops s name)"
    by (cases "liveLoops s name") auto
  have le: "length (liveLoops s name) \<le> 1"
    unfolding liveLoops_def
  proof (rule filter_at_most_one [OF f(2), where n = name and c = "StopChan job"])
    fix g assume gm: "g \<in> set (goroutines s)"
      and live: "case g of TickLoop n c \<Rightarrow> n = name \<and> c \<notin> set (closed s) | FirstRun n \<Rightarrow> False"
    from live obtain c where g: "g = TickLoop name c" and c: "c \<notin> set (closed s)"
      by (cases g) auto
    from f(6) [OF gm [unfolded g] c] job show "g = TickLoop name (StopChan job)"
      using g by auto
  qed
  show ?thesis using True ge le by simp
next
  case False
  note f = schedulerInv_facts [OF inv]
  have "liveLoops s name = []"
  proof (rule ccontr)
    assume "liveLoops s name \<noteq> []"
    then obtain g where gm: "g \<in> set (goroutines s)"
      and live: "case g of TickLoop n c \<Rightarrow> n = name \<and> c \<notin> set (closed s) | FirstRun n \<Rightarrow> False"
      by (auto simp: liveLoops_def filter_empty_conv)
    from live obtain c where g: "g = TickLoop name c" and c: "c \<notin> set (closed s)"
      by (cases g) auto
    from f(6) [OF gm [unfolded g] c] show False
      using False by (auto simp: SchedulerIsActive_def)
  qed
  then show ?thesis using False by simp
qed

lemma activeEntries_count:
  assumes d: "distinct (map fst (scrapers s))"
  shows "length (activeEntries s name) = (if SchedulerIsActive s name then 1 else 0)"
proof -
  have gen: "distinct (map fst al) \<Longrightarrow>
      length (filter (\<lambda>(n, job). n = name \<and> IsActive job) al) =
      (if (case map_of al name of Some job \<Rightarrow> IsActive job | None \<Rightarrow> False) then 1 else 0)" for al
  proof (induction al)
    case Nil
    then show ?case by simp
  next
    case (Cons a al)
    obtain n j where a: "a = (n, j)" by (cases a)
    show ?case
    proof (cases "n = name")
      case True
      then have "name \<notin> fst ` set al" using Cons.prems a by auto
      then have "filter (\<lambda>(n, job). n = name \<and> IsActive job) al = []"
        by (force simp: filter_empty_conv)
      then show ?thesis using True a by simp
    next
      case False
      then show ?thesis using Cons a by simp
    qed
  qed
  show ?thesis
    using gen [OF d] by (simp add: activeEntries_def SchedulerIsActive_def)
qed

lemma started_once:
  "calls [hackernewsConfig] [CallStart ''hackernews'' 300000000000] =
     \<lparr>scrapers = [(''hackernews'', \<lparr>Scraper = hackernewsConfig, Ticker = 300000000000, StopChan = 0, IsActive = True\<rparr>)],
      channels = 1, closed = [],
      goroutines = [FirstRun ''hackernews'', TickLoop ''hackernews'' 0]\<rparr>"
  by (simp add: calls_def StartScraper_def NewMultiScheduler_def NewGenericScraper_def GetScraper_def
      hackernewsConfig_def)

text \<open>
  C9: starting a source that already has an active entry returns an error and leaves
  the scheduler as it was; and after any sequence of start, stop and stop-all calls on a
  new scheduler, every source name has exactly one active entry and exactly one running
  polling loop when it is active, and none when it is not.
\<close>

theorem StartScraper_exclusive:
  "(SchedulerIsActive s name \<longrightarrow>
      (\<exists>msg. StartScraper cfgs s name interval = (Failed msg, s))) \<and>
   length (activeEntries (calls cfgs cs) name) = (if SchedulerIsActive (calls cfgs cs) name then 1 else 0) \<and>
   length (liveLoops (calls cfgs cs) name) = (if SchedulerIsActive (calls cfgs cs) name then 1 else 0)"
proof -
  have "SchedulerIsActive s name \<longrightarrow> (\<exists>msg. StartScraper cfgs s name interval = (Failed msg, s))"
    by (simp add: SchedulerIsActive_def StartScraper_def)
  moreover have "length (activeEntries (calls cfgs cs) name) =
      (if SchedulerIsActive (calls cfgs cs) name then 1 else 0)"
    using schedulerInv_facts(1) [OF schedulerInv_calls] by (rule activeEntries_count)
  moreover have "length (liveLoops (calls cfgs cs) name) =
      (if SchedulerIsActive (calls cfgs cs) name then 1 else 0)"
    using schedulerInv_calls by (rule liveLoops_count)
  ultimately show ?thesis by blast
qed

theorem StartScraper_exclusive_witness:
  "SchedulerIsActive (calls [hackernewsConfig] [CallStart ''hackernews'' 300000000000]) ''hackernews'' \<and>
   StartScraper [hackernewsConfig] (calls [hackernewsConfig] [CallStart ''hackernews'' 300000000000])
     ''hackernews'' 300000000000 =
     (Failed ''scraper hackernews is already running'',
      calls [hackernewsConfig] [CallStart ''hackernews'' 300000000000]) \<and>
   length (activeEntries (calls [hackernewsConfig]
      [CallStart ''hackernews'' 300000000000, CallStart ''hackernews'' 300000000000]) ''hackernews'') = 1 \<and>
   length (liveLoops (calls [hackernewsConfig]
      [CallStart ''hackernews'' 300000000000, CallStart ''hackernews'' 300000000000]) ''hackernews'') = 1"
proof -
  let ?s = "calls [hackernewsConfig] [CallStart ''hackernews'' 300000000000]"
  let ?cs = "[CallStart ''hackernews'' 300000000000, CallStart ''hackernews'' 300000000000]"
  have active: "SchedulerIsActive ?s ''hackernews''"
    by (simp add: started_once SchedulerIsActive_def)
  have twice: "calls [hackernewsConfig] ?cs = snd (StartScraper [hackernewsConfig] ?s ''hackernews'' 300000000000)"
    by (simp add: calls_def)
  from StartScraper_exclusive [of ?s "''hackernews''" "[hackernewsConfig]" 300000000000 ?cs] active
  obtain msg where failed: "StartScraper [hackernewsConfig] ?s ''hackernews'' 300000000000 = (Failed msg, ?s)"
    and one: "length (activeEntries (calls [hackernewsConfig] ?cs) ''hackernews'') =
                (if SchedulerIsActive (calls [hackernewsConfig] ?cs) ''hackernews'' then 1 else 0)"
             "length (liveLoops (calls [hackernewsConfig] ?cs) ''hackernews'') =
                (if SchedulerIsActive (calls [hackernewsConfig] ?cs) ''hackernews'' then 1 else 0)"
    by blast
  have msg: "msg = ''scraper hackernews is already running''"
    using failed active by (simp add: StartScraper_def SchedulerIsActive_def)
  have same: "calls [hackernewsConfig] ?cs = ?s"
    using twice failed by simp
  show ?thesis
    using active failed msg one same by simp
qed

section \<open>The store without faults\<close>

lemma nextFault_none: "faults db = [] \<Longrightarrow> nextFault db = (False, db)"
  by (simp add: nextFault_def)

lemma PostExists_ok:
  "faults db = [] \<Longrightarrow> PostExists db k = ((map_of (posts db) k \<noteq> None, None), db)"
  by (simp add: PostExists_def nextFault_none)



section \<open>Properties of since-last mode\<close>












section \<open>Properties of savePosts\<close>





lemma savePost_highest:
  "HighestIDSeen (fst (snd (savePost post (saved, result, db)))) = max (HighestIDSeen result) (HnID post)"
  by (auto simp: savePost_def split: prod.splits option.splits sum.splits)

lemma savePostsFrom_highest:
  "HighestIDSeen (fst (snd (savePostsFrom ps (saved, result, db)))) =
     Max (insert (HighestIDSeen result) (HnID ` set ps))"
proof (induction ps arbitrary: saved result db)
  case Nil
  then show ?case by simp
next
  case (Cons p ps)
  obtain saved1 result1 db1 where st: "savePost p (saved, result, db) = (saved1, result1, db1)"
    by (cases "savePost p (saved, result, db)") auto
  have h: "HighestIDSeen result1 = max (HighestIDSeen result) (HnID p)"
    using savePost_highest [of p saved result db] st by simp
  have "Max (insert (max (HighestIDSeen result) (HnID p)) (HnID ` set ps)) =
        Max (insert (HighestIDSeen result) (insert (HnID p) (HnID ` set ps)))"
    by (cases "set ps = {}") (simp_all add: max.assoc)
  then show ?case
    using Cons.IH [of saved1 result1 db1] st h by simp
qed





lemma savePost_frame:
  "fst (snd (savePost post (saved, result, db))) =
     result\<lparr>NewPosts := NewPosts (fst (snd (savePost post (saved, result, db)))),
            UpdatedPosts := UpdatedPosts (fst (snd (savePost post (saved, result, db)))),
            HighestIDSeen := HighestIDSeen (fst (snd (savePost post (saved, result, db))))\<rparr>"
  by (auto simp: savePost_def split: prod.splits option.splits sum.splits)

lemma savePostsFrom_frame:
  "fst (snd (savePostsFrom ps (saved, result, db))) =
     result\<lparr>NewPosts := NewPosts (fst (snd (savePostsFrom ps (saved, result, db)))),
            UpdatedPosts := UpdatedPosts (fst (snd (savePostsFrom ps (saved, result, db)))),
            HighestIDSeen := HighestIDSeen (fst (snd (savePostsFrom ps (saved, result, db))))\<rparr>"
proof (induction ps arbitrary: saved result db)
  case Nil
  then show ?case by simp
next
  case (Cons p ps)
  obtain saved1 result1 db1 where st: "savePost p (saved, result, db) = (saved1, result1, db1)"
    by (cases "savePost p (saved, result, db)") auto
  define final where "final = fst (snd (savePostsFrom ps (saved1, result1, db1)))"
  have one: "result1 = result\<lparr>NewPosts := NewPosts result1, UpdatedPosts := UpdatedPosts result1,
      HighestIDSeen := HighestIDSeen result1\<rparr>"
    using savePost_frame [of p saved result db] by (simp add: st)
  have rest: "final = result1\<lparr>NewPosts := NewPosts final, UpdatedPosts := UpdatedPosts final,
      HighestIDSeen := HighestIDSeen final\<rparr>"
    unfolding final_def by (rule Cons.IH)
  have "final = result\<lparr>NewPosts := NewPosts final, UpdatedPosts := UpdatedPosts final,
      HighestIDSeen := HighestIDSeen final\<rparr>"
    by (subst rest, subst one) simp
  then show ?case by (simp add: st final_def)
qed

lemma savePostsFrom_fields:
  "PostsScraped (fst (snd (savePostsFrom ps (saved, result, db)))) = PostsScraped result"
  "PagesScraped (fst (snd (savePostsFrom ps (saved, result, db)))) = PagesScraped result"
  "LastKnownID (fst (snd (savePostsFrom ps (saved, result, db)))) = LastKnownID result"
  "Mode (fst (snd (savePostsFrom ps (saved, result, db)))) = Mode result"
  "DeletedPosts (fst (snd (savePostsFrom ps (saved, result, db)))) = DeletedPosts result"
  "Errors (fst (snd (savePostsFrom ps (saved, result, db)))) = Errors result"
  by (subst savePostsFrom_frame, simp)+




lemma savePosts_highest:
  "HighestIDSeen (fst (snd (savePosts ps result db))) =
     Max (insert (HighestIDSeen result) (HnID ` set ps))"
  by (simp add: savePosts_def savePostsFrom_highest)

lemma Max_insert_ge:
  "finite A \<Longrightarrow> (k \<le> Max (insert (0::int) A)) = (k \<le> 0 \<or> (\<exists>a\<in>A. k \<le> a))"
  by (subst Max_ge_iff) auto

lemma latest_highest:
  assumes "mode s = ModeLatestOnly"
    and "scrapePage clk web (ConfigURL (config s)) 1 = Inr ps"
  shows "HighestIDSeen (fst (ScrapeWithStrategy clk web s db)) = Max (insert 0 (HnID ` set ps))"
    and "LastKnownID (fst (ScrapeWithStrategy clk web s db)) = fst (fst (GetLatestHNPostID db))"
proof -
  obtain k e0 db1 where latest: "GetLatestHNPostID db = ((k, e0), db1)"
    by (cases "GetLatestHNPostID db") auto
  define r0 where "r0 = (newResult ModeLatestOnly)\<lparr>LastKnownID := k\<rparr>"
  define st where "st = savePostsFrom ps (0, r0, db1)"
  have run: "fst (ScrapeWithStrategy clk web s db) =
      (fst (snd st))\<lparr>PostsScraped := PostsScraped (fst (snd st)) + fst st, PagesScraped := 1\<rparr>"
    using assms latest
    by (simp add: ScrapeWithStrategy_def scrapeLatestPage_def savePosts_def Let_def split_beta
        st_def r0_def)
  show "HighestIDSeen (fst (ScrapeWithStrategy clk web s db)) = Max (insert 0 (HnID ` set ps))"
    using savePostsFrom_highest [of ps 0 r0 db1]
    by (simp add: run st_def) (simp add: r0_def newResult_def)
  show "LastKnownID (fst (ScrapeWithStrategy clk web s db)) = fst (fst (GetLatestHNPostID db))"
    using savePostsFrom_fields(3) [of ps 0 r0 db1] latest
    by (simp add: run st_def) (simp add: r0_def)
qed

lemma fullArchivePages_highest:
  "PagesScraped result < page \<Longrightarrow>
   HighestIDSeen result \<le> HighestIDSeen (fst (fullArchivePages clk web s page result db)) \<and>
   (\<forall>q doc p. page \<le> q \<and> q \<le> PagesScraped (fst (fullArchivePages clk web s page result db)) \<and>
       web (buildPageURL s q) = Body doc \<and> p \<in> set (fst (ParseDocument clk doc)) \<longrightarrow>
       HnID p \<le> HighestIDSeen (fst (fullArchivePages clk web s page result db)))"
proof (induction clk web s page result db rule: fullArchivePages.induct)
  case (1 clk web s page result db)
  note step = fullArchivePages.simps [of clk web s page result db]
  show ?case
  proof (cases "page \<le> maxPages s")
    case False
    then show ?thesis using "1.prems" by (simp add: step)
  next
    case inRange: True
    show ?thesis
    proof (cases "web (buildPageURL s page)")
      case (GetFailed err)
      then show ?thesis using inRange "1.prems" by (simp add: step)
    next
      case (ReadFailed err)
      then show ?thesis using inRange "1.prems" by (simp add: step)
    next
      case (Body doc)
      obtain ps where parsed: "ParseDocument clk doc = (ps, None)"
        by (simp add: ParseDocument_def)
      show ?thesis
      proof (cases "ps = []")
        case True
        then show ?thesis using inRange Body parsed "1.prems" by (simp add: step)
      next
        case nonEmpty: False
        obtain saved r b where saved: "savePosts ps result db = (saved, r, b)"
          by (cases "savePosts ps result db") auto
        define r2 where "r2 = r\<lparr>PostsScraped := PostsScraped r + saved, PagesScraped := page\<rparr>"
        have high: "HighestIDSeen r = Max (insert (HighestIDSeen result) (HnID ` set ps))"
          using savePosts_highest [of ps result db] saved by simp
        have ge: "HighestIDSeen result \<le> HighestIDSeen r2"
          and ids: "\<And>p. p \<in> set ps \<Longrightarrow> HnID p \<le> HighestIDSeen r2"
          by (simp_all add: r2_def high)
        have here: "\<And>d p. web (buildPageURL s page) = Body d \<Longrightarrow> p \<in> set (fst (ParseDocument clk d))
            \<Longrightarrow> HnID p \<le> HighestIDSeen r2"
          using Body parsed ids by simp
        show ?thesis
        proof (cases "stopOnDuplicate s \<and> saved = 0")
          case True
          then have eq: "fullArchivePages clk web s page result db = (r2, b)"
            using inRange Body parsed nonEmpty saved by (simp add: step r2_def)
          have "\<And>q. page \<le> q \<Longrightarrow> q \<le> PagesScraped r2 \<Longrightarrow> q = page"
            by (simp add: r2_def)
          then show ?thesis
            using ge here by (auto simp: eq)
        next
          case False
          let ?next = "fullArchivePages clk web s (page + 1) r2 b"
          have eq: "fullArchivePages clk web s page result db = ?next"
            using False inRange Body parsed nonEmpty saved by (auto simp: step r2_def Let_def)
          have "PagesScraped r2 < page + 1" by (simp add: r2_def)
          from "1.IH"(1) [OF inRange Body parsed [symmetric] refl nonEmpty saved [symmetric] refl
              r2_def False this]
          have ih1: "HighestIDSeen r2 \<le> HighestIDSeen (fst ?next)"
            and ih2: "\<And>q d p. page + 1 \<le> q \<Longrightarrow> q \<le> PagesScraped (fst ?next) \<Longrightarrow>
                web (buildPageURL s q) = Body d \<Longrightarrow> p \<in> set (fst (ParseDocument clk d)) \<Longrightarrow>
                HnID p \<le> HighestIDSeen (fst ?next)"
            by blast+
          have "HnID p \<le> HighestIDSeen (fst ?next)"
            if "page \<le> q" "q \<le> PagesScraped (fst ?next)" "web (buildPageURL s q) = Body d"
              "p \<in> set (fst (ParseDocument clk d))" for q d p
          proof (cases "q = page")
            case True
            then show ?thesis using here [of d p] that ih1 by simp
          next
            case False
            then have "page + 1 \<le> q" using that(1) by simp
            then show ?thesis using ih2 that by blast
          qed
          then show ?thesis
            using ge ih1 by (auto simp: eq)
        qed
      qed
    qed
  qed
qed


lemma unchangedWeb_page: "scrapePage utcClock unchangedWeb (ConfigURL (config hnLatest)) 1 = Inr [storedPost 101 5 1]"
  by code_simp

lemma archive_run:
  "fst (ScrapeWithStrategy utcClock archiveWeb hnFullArchive emptyDatabase) =
     \<lparr>Mode = ModeFullArchive, PagesScraped = 2, PostsScraped = 3, NewPosts = 3, UpdatedPosts = 0,
      DeletedPosts = 0, LastKnownID = 0, HighestIDSeen = 103,
      Errors = [PageFetch 3 ''no such host'']\<rparr>"
  by code_simp

lemma archive_page2:
  "archiveWeb (buildPageURL hnFullArchive 2) = Body [feedRow 101 5 1]"
  by code_simp

lemma archive_page2_posts:
  "fst (ParseDocument utcClock [feedRow 101 5 1]) = [storedPost 101 5 1]"
  by code_simp

text \<open>
  C1, as stated: in every mode, once a record has been observed, \<open>HighestIDSeen\<close> is at
  least \<open>LastKnownID\<close>. A latest-only run against a listing that shows only record 50,
  on a store whose highest identifier is 100, observes a record and ends with
  \<open>HighestIDSeen = 50\<close> below \<open>LastKnownID = 100\<close>.
\<close>

theorem highestIDSeen_below_lastKnownID_counterexample:
  "fst (ScrapeWithStrategy utcClock staleWeb hnLatest knownStore) =
     \<lparr>Mode = ModeLatestOnly, PagesScraped = 1, PostsScraped = 1, NewPosts = 1, UpdatedPosts = 0,
      DeletedPosts = 0, LastKnownID = 100, HighestIDSeen = 50, Errors = []\<rparr>"
  by code_simp

text \<open>
  C1, amended: \<open>savePosts\<close> raises \<open>HighestIDSeen\<close> to the largest identifier among
  the records it is given, whatever the store answers. So a latest-only run that can
  scrape its page ends with \<open>HighestIDSeen\<close> equal to the largest identifier on the page
  (or 0), which is at least \<open>LastKnownID\<close> exactly when \<open>LastKnownID\<close> is not positive or
  some record on the page has an identifier of at least \<open>LastKnownID\<close>; and a full-archive
  run ends with \<open>HighestIDSeen\<close> at least the identifier of every record on every page
  it counts in \<open>PagesScraped\<close>.
\<close>

theorem highestIDSeen_of_saved_records:
  "HighestIDSeen (fst (snd (savePosts ps result db))) =
     Max (insert (HighestIDSeen result) (HnID ` set ps)) \<and>
   (mode s = ModeLatestOnly \<and> scrapePage clk web (ConfigURL (config s)) 1 = Inr ps \<longrightarrow>
      HighestIDSeen (fst (ScrapeWithStrategy clk web s db)) = Max (insert 0 (HnID ` set ps)) \<and>
      (LastKnownID (fst (ScrapeWithStrategy clk web s db))
         \<le> HighestIDSeen (fst (ScrapeWithStrategy clk web s db)) \<longleftrightarrow>
       LastKnownID (fst (ScrapeWithStrategy clk web s db)) \<le> 0 \<or>
       (\<exists>p\<in>set ps. LastKnownID (fst (ScrapeWithStrategy clk web s db)) \<le> HnID p))) \<and>
   (mode s = ModeFullArchive \<and> 1 \<le> q \<and> q \<le> PagesScraped (fst (ScrapeWithStrategy clk web s db)) \<and>
    web (buildPageURL s q) = Body doc \<and> p \<in> set (fst (ParseDocument clk doc)) \<longrightarrow>
      HnID p \<le> HighestIDSeen (fst (ScrapeWithStrategy clk web s db)))"
proof -
  have c1: "HighestIDSeen (fst (snd (savePosts ps result db))) =
     Max (insert (HighestIDSeen result) (HnID ` set ps))"
    by (rule savePosts_highest)
  have c2: "mode s = ModeLatestOnly \<and> scrapePage clk web (ConfigURL (config s)) 1 = Inr ps \<longrightarrow>
      HighestIDSeen (fst (ScrapeWithStrategy clk web s db)) = Max (insert 0 (HnID ` set ps)) \<and>
      (LastKnownID (fst (ScrapeWithStrategy clk web s db))
         \<le> HighestIDSeen (fst (ScrapeWithStrategy clk web s db)) \<longleftrightarrow>
       LastKnownID (fst (ScrapeWithStrategy clk web s db)) \<le> 0 \<or>
       (\<exists>p\<in>set ps. LastKnownID (fst (ScrapeWithStrategy clk web s db)) \<le> HnID p))"
  proof (intro impI, elim conjE)
    assume m: "mode s = ModeLatestOnly" and page: "scrapePage clk web (ConfigURL (config s)) 1 = Inr ps"
    have h: "HighestIDSeen (fst (ScrapeWithStrategy clk web s db)) = Max (insert 0 (HnID ` set ps))"
      by (rule latest_highest(1) [OF m page])
    show "HighestIDSeen (fst (ScrapeWithStrategy clk web s db)) = Max (insert 0 (HnID ` set ps)) \<and>
      (LastKnownID (fst (ScrapeWithStrategy clk web s db))
         \<le> HighestIDSeen (fst (ScrapeWithStrategy clk web s db)) \<longleftrightarrow>
       LastKnownID (fst (ScrapeWithStrategy clk web s db)) \<le> 0 \<or>
       (\<exists>p\<in>set ps. LastKnownID (fst (ScrapeWithStrategy clk web s db)) \<le> HnID p))"
      using Max_insert_ge [of "HnID ` set ps" "LastKnownID (fst (ScrapeWithStrategy clk web s db))"]
      by (simp add: h)
  qed
  have c3: "mode s = ModeFullArchive \<and> 1 \<le> q \<and> q \<le> PagesScraped (fst (ScrapeWithStrategy clk web s db)) \<and>
    web (buildPageURL s q) = Body doc \<and> p \<in> set (fst (ParseDocument clk doc)) \<longrightarrow>
      HnID p \<le> HighestIDSeen (fst (ScrapeWithStrategy clk web s db))"
  proof (intro impI, elim conjE)
    assume m: "mode s = ModeFullArchive" and q: "1 \<le> q"
      "q \<le> PagesScraped (fst (ScrapeWithStrategy clk web s db))"
      and page: "web (buildPageURL s q) = Body doc" and p: "p \<in> set (fst (ParseDocument clk doc))"
    obtain k e0 db1 where latest: "GetLatestHNPostID db = ((k, e0), db1)"
      by (cases "GetLatestHNPostID db") auto
    define r0 where "r0 = (newResult ModeFullArchive)\<lparr>LastKnownID := k\<rparr>"
    have run: "fst (ScrapeWithStrategy clk web s db) = fst (fullArchivePages clk web s 1 r0 db1)"
      using m latest
      by (simp add: ScrapeWithStrategy_def scrapeFullArchive_def Let_def split_beta r0_def)
    have "PagesScraped r0 < 1" by (simp add: r0_def newResult_def)
    from fullArchivePages_highest [OF this, of clk web s db1] q page p
    show "HnID p \<le> HighestIDSeen (fst (ScrapeWithStrategy clk web s db))"
      unfolding run by blast
  qed
  show ?thesis
    by (rule conjI [OF c1 conjI [OF c2 c3]])
qed

theorem highestIDSeen_of_saved_records_witness:
  "mode hnLatest = ModeLatestOnly \<and>
   scrapePage utcClock unchangedWeb (ConfigURL (config hnLatest)) 1 = Inr [storedPost 101 5 1] \<and>
   HighestIDSeen (fst (ScrapeWithStrategy utcClock unchangedWeb hnLatest knownStore)) = 101 \<and>
   mode hnFullArchive = ModeFullArchive \<and>
   PagesScraped (fst (ScrapeWithStrategy utcClock archiveWeb hnFullArchive emptyDatabase)) = 2 \<and>
   archiveWeb (buildPageURL hnFullArchive 2) = Body [feedRow 101 5 1] \<and>
   storedPost 101 5 1 \<in> set (fst (ParseDocument utcClock [feedRow 101 5 1])) \<and>
   101 \<le> HighestIDSeen (fst (ScrapeWithStrategy utcClock archiveWeb hnFullArchive emptyDatabase))"
proof -
  have m1: "mode hnLatest = ModeLatestOnly"
    by (simp add: hnLatest_def NewSmartScraper_def)
  have m2: "mode hnFullArchive = ModeFullArchive"
    by (simp add: hnFullArchive_def NewSmartScraper_def)
  have pages: "PagesScraped (fst (ScrapeWithStrategy utcClock archiveWeb hnFullArchive emptyDatabase)) = 2"
    by (simp add: archive_run)
  have mem: "storedPost 101 5 1 \<in> set (fst (ParseDocument utcClock [feedRow 101 5 1]))"
    by (simp add: archive_page2_posts)
  have latest: "HighestIDSeen (fst (ScrapeWithStrategy utcClock unchangedWeb hnLatest knownStore)) =
      Max (insert 0 (HnID ` set [storedPost 101 5 1]))"
    using highestIDSeen_of_saved_records [of "[storedPost 101 5 1]" "newResult ModeLatestOnly" knownStore
        hnLatest utcClock unchangedWeb] m1 unchangedWeb_page
    by blast
  have full: "HnID (storedPost 101 5 1) \<le>
      HighestIDSeen (fst (ScrapeWithStrategy utcClock archiveWeb hnFullArchive emptyDatabase))"
    using highestIDSeen_of_saved_records [of "[]" "newResult ModeFullArchive" emptyDatabase
        hnFullArchive utcClock archiveWeb 2 "[feedRow 101 5 1]" "storedPost 101 5 1"]
      m2 pages archive_page2 mem
    by simp
  show ?thesis
    using m1 m2 unchangedWeb_page pages archive_page2 mem latest full
    by (simp add: storedPost_def)
qed





end
